theory Spec2Isabelle
  imports Main "HOL-Library.AList"
begin

section \<open>The relationship graph of the record-data package\<close>

text \<open>
  A shallow embedding of \<^verbatim>\<open>graph/graph.ts\<close> (class \<^verbatim>\<open>Graph\<close>),
  \<^verbatim>\<open>graph/edges/collection.ts\<close> and
  \<^verbatim>\<open>graph/operations/remove-from-related-records.ts\<close>.

  Conventions of the embedding.
  \<^item> The build modelled is the development build: \<^verbatim>\<open>DEBUG\<close> is true and a failing
    \<^verbatim>\<open>assert\<close> raises. \<^verbatim>\<open>LOG_GRAPH\<close> only prints and is left out.
  \<^item> A raise is the value \<open>Inl e\<close>; what the source had mutated before raising is not
    tracked.
  \<^item> Edge objects and node dictionaries are mutable objects shared by reference. They live
    in two object stores (lists, a reference being an index); creating an object appends
    it, so a new object never takes the place of an old one.
  \<^item> A leading underscore of a source name is dropped (\<^verbatim>\<open>_transaction\<close> is
    \<open>transaction\<close>), and the fields \<^verbatim>\<open>definition\<close>, \<^verbatim>\<open>identifier\<close>,
    \<^verbatim>\<open>record\<close>, \<^verbatim>\<open>value\<close> carry a prefix, these words being reserved.
  \<^item> Functions of the repository that are imported by these files but are not part of
    them are parameters, collected in the record \<open>Collaborators\<close>.
\<close>

subsection \<open>Identifiers, definitions, edges\<close>

datatype Error = AssertionError | TypeError

type_synonym ref = nat

text \<open>
  A stable identifier is one object per logical record, so comparing the fields compares
  the objects.
\<close>

datatype StableRecordIdentifier = Identifier (type: string) (lid: string)

text \<open>
  Modelled from the spec: the type \<^verbatim>\<open>UpgradedMeta\<close> of \<^verbatim>\<open>-edge-definition\<close>, with the
  fields these files read; \<open>kind\<close> ranges over belongsTo, hasMany and implicit.
\<close>

datatype Kind = BelongsTo | HasMany | ImplicitKind

record UpgradedMeta =
  kind :: Kind
  key :: string
  inverseKey :: string
  inverseIsAsync :: bool

text \<open>
  Modelled from the spec: the resolver's result \<^verbatim>\<open>EdgeDefinition\<close>, of which
  \<^verbatim>\<open>Graph.get\<close> reads \<^verbatim>\<open>lhs_definition\<close> and the nullable \<^verbatim>\<open>rhs_definition\<close>.
\<close>

record EdgeDefinition =
  lhs_definition :: UpgradedMeta
  rhs_definition :: "UpgradedMeta option"

text \<open>
  Modelled from the spec: the value object \<^verbatim>\<open>RelationshipState\<close> of \<^verbatim>\<open>-state\<close>, two
  booleans.
\<close>

record RelationshipState =
  hasReceivedData :: bool
  isEmpty :: bool

text \<open>\<^verbatim>\<open>Meta\<close>, \<^verbatim>\<open>Links\<close> and \<^verbatim>\<open>PaginationLinks\<close> are opaque objects.\<close>

datatype JsonObject = JsonObject "(string \<times> string) list"

record ImplicitRelationship =
  edgeDefinition :: UpgradedMeta
  edgeIdentifier :: StableRecordIdentifier
  localMembers :: "StableRecordIdentifier set"
  remoteMembers :: "StableRecordIdentifier set"

text \<open>
  \<^verbatim>\<open>CollectionRelationship\<close> has the four fields of an implicit edge and six more.
  \<open>transactionRef\<close> is a JavaScript number that is only reset to 0 and incremented; it is
  a natural number here.
\<close>

record CollectionRelationship = ImplicitRelationship +
  state :: RelationshipState
  localState :: "StableRecordIdentifier list"
  remoteState :: "StableRecordIdentifier list"
  meta :: "JsonObject option"
  links :: "JsonObject option"
  transactionRef :: nat

text \<open>
  Modelled from the spec: the resource edge of \<^verbatim>\<open>edges/resource\<close> (one remote and one
  local value, meta, links, state flags); \<^verbatim>\<open>Graph._finalize\<close> and
  \<^verbatim>\<open>Graph._addToTransaction\<close> write its \<^verbatim>\<open>transactionRef\<close>.
\<close>

record ResourceRelationship =
  resourceDefinition :: UpgradedMeta
  resourceIdentifier :: StableRecordIdentifier
  resourceState :: RelationshipState
  localValue :: "StableRecordIdentifier option"
  remoteValue :: "StableRecordIdentifier option"
  resourceMeta :: "JsonObject option"
  resourceLinks :: "JsonObject option"
  resourceTransactionRef :: nat

datatype RelationshipEdge =
    Implicit ImplicitRelationship
  | Collection CollectionRelationship
  | Resource ResourceRelationship

text \<open>\<^verbatim>\<open>relationship.definition\<close>, whatever the shape of the edge.\<close>

fun definitionOf :: "RelationshipEdge \<Rightarrow> UpgradedMeta" where
  "definitionOf (Implicit i) = edgeDefinition i"
| "definitionOf (Collection c) = edgeDefinition c"
| "definitionOf (Resource r) = resourceDefinition r"

text \<open>
  Modelled from the spec: \<^verbatim>\<open>isImplicit\<close>, \<^verbatim>\<open>isBelongsTo\<close> and \<^verbatim>\<open>isHasMany\<close> of
  \<^verbatim>\<open>-utils\<close> tell the three shapes of the closed variant type apart.
\<close>

fun isImplicit :: "RelationshipEdge \<Rightarrow> bool" where
  "isImplicit (Implicit i) = True"
| "isImplicit e = False"

fun isBelongsTo :: "RelationshipEdge \<Rightarrow> bool" where
  "isBelongsTo (Resource r) = True"
| "isBelongsTo e = False"

fun isHasMany :: "RelationshipEdge \<Rightarrow> bool" where
  "isHasMany (Collection c) = True"
| "isHasMany e = False"

subsection \<open>edges/collection.ts\<close>

definition createCollectionRelationship ::
  "RelationshipState \<Rightarrow> UpgradedMeta \<Rightarrow> StableRecordIdentifier \<Rightarrow> CollectionRelationship" where
  "createCollectionRelationship createState def ident =
     \<lparr> edgeDefinition = def, edgeIdentifier = ident,
       localMembers = {}, remoteMembers = {},
       state = createState,
       localState = [], remoteState = [],
       meta = None, links = None, transactionRef = 0 \<rparr>"

text \<open>
  The payload \<^verbatim>\<open>{ data?, links?, meta? }\<close>; a key that is absent is \<open>None\<close>. The data
  of a collection is a list, the data of a resource an identifier or null.
\<close>

datatype PayloadData =
    CollectionData "StableRecordIdentifier list"
  | ResourceData "StableRecordIdentifier option"

record Payload =
  payloadData :: "PayloadData option"
  payloadLinks :: "JsonObject option"
  payloadMeta :: "JsonObject option"

definition legacyGetCollectionRelationshipData :: "CollectionRelationship \<Rightarrow> Payload" where
  "legacyGetCollectionRelationshipData source =
     (let payload = \<lparr> payloadData = None, payloadLinks = None, payloadMeta = None \<rparr>;
          payload = (if hasReceivedData (state source)
                     then payload\<lparr> payloadData := Some (CollectionData (localState source)) \<rparr>
                     else payload);
          payload = (case links source of
                       Some l \<Rightarrow> payload\<lparr> payloadLinks := Some l \<rparr>
                     | None \<Rightarrow> payload);
          payload = (case meta source of
                       Some m \<Rightarrow> payload\<lparr> payloadMeta := Some m \<rparr>
                     | None \<Rightarrow> payload)
      in payload)"

subsection \<open>The graph\<close>

text \<open>
  Modelled from the spec: an operation record \<^verbatim>\<open>{ op, record, field?, value?, index? }\<close>
  of \<^verbatim>\<open>-operations\<close>. An absent field is the empty string (both fail the assertion of
  \<^verbatim>\<open>Graph.get\<close>, its only reader).
\<close>

datatype OperationValue =
    Null
  | One StableRecordIdentifier
  | Many "StableRecordIdentifier list"

record Operation =
  op :: string
  opRecord :: StableRecordIdentifier
  field :: string
  opValue :: OperationValue
  index :: "nat option"

record PushedUpdates =
  belongsTo :: "Operation list"
  hasMany :: "Operation list"
  deletions :: "Operation list"

text \<open>
  A node dictionary \<^verbatim>\<open>Dict<RelationshipEdge>\<close> keeps its keys in insertion order, the
  order of \<^verbatim>\<open>Object.keys\<close> for field names (which are not integer-like); a key may hold
  \<^verbatim>\<open>undefined\<close> (\<open>None\<close>).
\<close>

type_synonym Dict = "(string \<times> ref option) list"

text \<open>The two callbacks the graph hands to the scheduler of its store.\<close>

datatype Callback = FlushRemoteQueue | FlushLocalQueue

text \<open>
  The state of one \<^verbatim>\<open>Graph\<close>. \<open>edges\<close> and \<open>nodes\<close> are the object stores;
  \<open>identifiers\<close>, a \<^verbatim>\<open>Map\<close>, lists each identifier with the reference of its
  dictionary, in insertion order. The sets of edges \<open>updatedRelationships\<close> and
  \<open>transaction\<close> are lists of references without repetition, in insertion order. \<open>scheduled\<close> is what the graph has passed to
  \<^verbatim>\<open>_schedule\<close> of its store and the store has not yet run. The definition cache and the
  polymorphic-type table are read and written by the resolver only and are left out.
\<close>

record Graph =
  edges :: "RelationshipEdge list"
  nodes :: "Dict list"
  identifiers :: "(StableRecordIdentifier \<times> ref) list"
  store :: "ref option"
  isDestroyed :: bool
  willSyncRemote :: bool
  willSyncLocal :: bool
  pushedUpdates :: PushedUpdates
  updatedRelationships :: "ref list"
  transaction :: "ref list option"
  removing :: "StableRecordIdentifier option"
  scheduled :: "(string \<times> Callback) list"

text \<open>
  The imported functions, as parameters: \<^verbatim>\<open>upgradeDefinition\<close> and \<^verbatim>\<open>isLHS\<close> of
  \<^verbatim>\<open>-edge-definition\<close> (the resolver; what it writes is the definition cache, which is
  not part of the state here), \<^verbatim>\<open>createState\<close> of \<^verbatim>\<open>-state\<close>,
  \<^verbatim>\<open>createResourceRelationship\<close> and \<^verbatim>\<open>legacyGetResourceRelationshipData\<close> of
  \<^verbatim>\<open>edges/resource\<close>, the helpers \<^verbatim>\<open>getStore\<close>, \<^verbatim>\<open>notifyChange\<close>,
  \<^verbatim>\<open>destroyRelationship\<close>, \<^verbatim>\<open>removeCompletelyFromInverse\<close> and
  \<^verbatim>\<open>assertValidRelationshipPayload\<close> of \<^verbatim>\<open>-utils\<close>, and the operations of the
  directory \<^verbatim>\<open>operations\<close> other than \<^verbatim>\<open>removeFromRelatedRecords\<close>. Those that
  receive the graph may change it and may raise; an edge or a dictionary is passed by its
  reference.
\<close>

record Collaborators =
  upgradeDefinition :: "StableRecordIdentifier \<Rightarrow> string \<Rightarrow> EdgeDefinition option"
  isLHS :: "EdgeDefinition \<Rightarrow> string \<Rightarrow> string \<Rightarrow> bool"
  createState :: RelationshipState
  createResourceRelationship :: "UpgradedMeta \<Rightarrow> StableRecordIdentifier \<Rightarrow> ResourceRelationship"
  legacyGetResourceRelationshipData :: "ResourceRelationship \<Rightarrow> Payload"
  getStore :: "ref option \<Rightarrow> Error + ref option"
  notifyChange :: "Graph \<Rightarrow> StableRecordIdentifier \<Rightarrow> string \<Rightarrow> Error + Graph"
  removeFromInverse ::
    "Graph \<Rightarrow> StableRecordIdentifier \<Rightarrow> string \<Rightarrow> StableRecordIdentifier \<Rightarrow> bool \<Rightarrow> Error + Graph"
  destroyRelationship :: "Graph \<Rightarrow> ref \<Rightarrow> bool option \<Rightarrow> Error + Graph"
  removeCompletelyFromInverse :: "Graph \<Rightarrow> ref \<Rightarrow> Error + Graph"
  mergeIdentifier :: "Graph \<Rightarrow> Operation \<Rightarrow> ref \<Rightarrow> Error + Graph"
  assertValidRelationshipPayload :: "Graph \<Rightarrow> Operation \<Rightarrow> Error + Graph"
  updateRelationshipOperation :: "Graph \<Rightarrow> Operation \<Rightarrow> Error + Graph"
  replaceRelatedRecord :: "Graph \<Rightarrow> Operation \<Rightarrow> bool \<Rightarrow> Error + Graph"
  addToRelatedRecords :: "Graph \<Rightarrow> Operation \<Rightarrow> bool \<Rightarrow> Error + Graph"
  replaceRelatedRecords :: "Graph \<Rightarrow> Operation \<Rightarrow> bool \<Rightarrow> Error + Graph"
  syncRemoteToLocal :: "Graph \<Rightarrow> ref \<Rightarrow> Error + Graph"

definition bindE :: "Error + 'a \<Rightarrow> ('a \<Rightarrow> Error + 'b) \<Rightarrow> Error + 'b" where
  "bindE m f = (case m of Inl e \<Rightarrow> Inl e | Inr x \<Rightarrow> f x)"

text \<open>\<^verbatim>\<open>new Graph(store)\<close>.\<close>

definition newGraph :: "ref \<Rightarrow> Graph" where
  "newGraph s =
     \<lparr> edges = [], nodes = [], identifiers = [], store = Some s,
       isDestroyed = False, willSyncRemote = False, willSyncLocal = False,
       pushedUpdates = \<lparr> belongsTo = [], hasMany = [], deletions = [] \<rparr>,
       updatedRelationships = [], transaction = None, removing = None,
       scheduled = [] \<rparr>"

text \<open>
  Reading and writing the object stores. A reference outside a store, which the code
  cannot build, reads as absent; where a definition below meets one, it raises a
  TypeError.
\<close>

definition edgeAt :: "Graph \<Rightarrow> ref \<Rightarrow> RelationshipEdge option" where
  "edgeAt g r = (if r < length (edges g) then Some (edges g ! r) else None)"

definition setEdge :: "Graph \<Rightarrow> ref \<Rightarrow> RelationshipEdge \<Rightarrow> Graph" where
  "setEdge g r e = g\<lparr> edges := (edges g)[r := e] \<rparr>"

definition nodeAt :: "Graph \<Rightarrow> ref \<Rightarrow> Dict" where
  "nodeAt g d = (if d < length (nodes g) then nodes g ! d else [])"

definition setNode :: "Graph \<Rightarrow> ref \<Rightarrow> Dict \<Rightarrow> Graph" where
  "setNode g d n = g\<lparr> nodes := (nodes g)[d := n] \<rparr>"

text \<open>
  \<^verbatim>\<open>relationships[propertyName]\<close> as the source tests it: an absent key and a key
  holding \<^verbatim>\<open>undefined\<close> both read as \<open>None\<close>.
\<close>

definition dictGet :: "Dict \<Rightarrow> string \<Rightarrow> ref option" where
  "dictGet n propertyName = (case map_of n propertyName of Some (Some r) \<Rightarrow> Some r | _ \<Rightarrow> None)"

definition has :: "Graph \<Rightarrow> StableRecordIdentifier \<Rightarrow> string \<Rightarrow> bool" where
  "has g ident propertyName =
     (case map_of (identifiers g) ident of
        None \<Rightarrow> False
      | Some d \<Rightarrow> dictGet (nodeAt g d) propertyName \<noteq> None)"

text \<open>
  \<^verbatim>\<open>Graph.get\<close> returns the edge object, here its reference, with the graph as it has
  become. The resolver \<^verbatim>\<open>upgradeDefinition\<close> answers \<open>None\<close> for \<^verbatim>\<open>null\<close>; reading
  \<^verbatim>\<open>kind\<close> of a null \<^verbatim>\<open>rhs_definition\<close> is a TypeError.
\<close>

definition get ::
  "Collaborators \<Rightarrow> Graph \<Rightarrow> StableRecordIdentifier \<Rightarrow> string \<Rightarrow> Error + (Graph \<times> ref)" where
  "get env g ident propertyName =
     (if propertyName = [] then Inl AssertionError
      else
        let (g1, d) =
              (case map_of (identifiers g) ident of
                 Some d \<Rightarrow> (g, d)
               | None \<Rightarrow>
                   (g\<lparr> nodes := nodes g @ [[]],
                       identifiers := AList.update ident (length (nodes g)) (identifiers g) \<rparr>,
                    length (nodes g)))
        in case dictGet (nodeAt g1 d) propertyName of
             Some r \<Rightarrow> Inr (g1, r)
           | None \<Rightarrow>
               (case upgradeDefinition env ident propertyName of
                  None \<Rightarrow> Inl AssertionError
                | Some info \<Rightarrow>
                    (case (if isLHS env info (type ident) propertyName
                           then Some (lhs_definition info) else rhs_definition info) of
                       None \<Rightarrow> Inl TypeError
                     | Some m \<Rightarrow>
                         let e = (case kind m of
                                    BelongsTo \<Rightarrow> Resource (createResourceRelationship env m ident)
                                  | HasMany \<Rightarrow>
                                      Collection (createCollectionRelationship (createState env) m ident)
                                  | ImplicitKind \<Rightarrow>
                                      Implicit \<lparr> edgeDefinition = m, edgeIdentifier = ident,
                                                 localMembers = {}, remoteMembers = {} \<rparr>);
                             r = length (edges g1)
                         in Inr (setNode (g1\<lparr> edges := edges g1 @ [e] \<rparr>) d
                                   (AList.update propertyName (Some r) (nodeAt g1 d)), r))))"

definition getData ::
  "Collaborators \<Rightarrow> Graph \<Rightarrow> StableRecordIdentifier \<Rightarrow> string \<Rightarrow> Error + (Graph \<times> Payload)" where
  "getData env g ident propertyName =
     bindE (get env g ident propertyName) (\<lambda>(g1, r).
       case edgeAt g1 r of
         None \<Rightarrow> Inl TypeError
       | Some (Implicit i) \<Rightarrow> Inl AssertionError
       | Some (Resource b) \<Rightarrow> Inr (g1, legacyGetResourceRelationshipData env b)
       | Some (Collection c) \<Rightarrow> Inr (g1, legacyGetCollectionRelationshipData c))"

text \<open>
  Modelled from the spec: \<^verbatim>\<open>getStore(this.store)._schedule(queue, callback)\<close>, the
  scheduler contract: the callback is queued, to be run once, later. \<^verbatim>\<open>getStore\<close> is a
  parameter; calling a method of a null store is a TypeError.
\<close>

definition schedule :: "Collaborators \<Rightarrow> Graph \<Rightarrow> string \<Rightarrow> Callback \<Rightarrow> Error + Graph" where
  "schedule env g queue cb =
     bindE (getStore env (store g)) (\<lambda>s.
       case s of
         None \<Rightarrow> Inl TypeError
       | Some st \<Rightarrow> Inr (g\<lparr> scheduled := scheduled g @ [(queue, cb)] \<rparr>))"

text \<open>
  The loop of \<^verbatim>\<open>Graph.unload\<close> over \<^verbatim>\<open>Object.keys(relationships)\<close>: the keys are read
  once, the dictionary object \<open>d\<close> is the one read before the loop.
\<close>

fun unloadKeys ::
  "Collaborators \<Rightarrow> ref \<Rightarrow> bool option \<Rightarrow> string list \<Rightarrow> Graph \<Rightarrow> Error + Graph" where
  "unloadKeys env d silenceNotifications [] g = Inr g"
| "unloadKeys env d silenceNotifications (k # ks) g =
     (case dictGet (nodeAt g d) k of
        None \<Rightarrow> unloadKeys env d silenceNotifications ks g
      | Some rel \<Rightarrow>
          bindE (destroyRelationship env g rel silenceNotifications) (\<lambda>g1.
            unloadKeys env d silenceNotifications ks
              (case edgeAt g1 rel of
                 Some (Implicit i) \<Rightarrow> setNode g1 d (AList.update k None (nodeAt g1 d))
               | _ \<Rightarrow> g1)))"

definition unload ::
  "Collaborators \<Rightarrow> Graph \<Rightarrow> StableRecordIdentifier \<Rightarrow> bool option \<Rightarrow> Error + Graph" where
  "unload env g ident silenceNotifications =
     (case map_of (identifiers g) ident of
        None \<Rightarrow> Inr g
      | Some d \<Rightarrow> unloadKeys env d silenceNotifications (map fst (nodeAt g d)) g)"

definition remove :: "Collaborators \<Rightarrow> Graph \<Rightarrow> StableRecordIdentifier \<Rightarrow> Error + Graph" where
  "remove env g ident =
     (if removing g \<noteq> None then Inl AssertionError
      else
        bindE (unload env (g\<lparr> removing := Some ident \<rparr>) ident None) (\<lambda>g1.
          Inr (g1\<lparr> identifiers := AList.delete ident (identifiers g1), removing := None \<rparr>)))"

text \<open>
  \<^verbatim>\<open>Graph.push\<close>. The bucket of an operation that is neither a deletion nor a
  \<^verbatim>\<open>replaceRelatedRecord\<close> is named by the kind of its edge; the kind \<^verbatim>\<open>implicit\<close>
  names no bucket, and pushing onto \<^verbatim>\<open>undefined\<close> is a TypeError.
\<close>

definition push :: "Collaborators \<Rightarrow> Graph \<Rightarrow> Operation \<Rightarrow> Error + Graph" where
  "push env g operation =
     bindE
       (if op operation = ''deleteRecord'' then
          Inr (g\<lparr> pushedUpdates := (pushedUpdates g)
                 \<lparr> deletions := deletions (pushedUpdates g) @ [operation] \<rparr> \<rparr>)
        else if op operation = ''replaceRelatedRecord'' then
          Inr (g\<lparr> pushedUpdates := (pushedUpdates g)
                 \<lparr> belongsTo := belongsTo (pushedUpdates g) @ [operation] \<rparr> \<rparr>)
        else
          bindE (get env g (opRecord operation) (field operation)) (\<lambda>(g1, rel).
            case edgeAt g1 rel of
              None \<Rightarrow> Inl TypeError
            | Some e \<Rightarrow>
                if isImplicit e then Inl AssertionError
                else (case kind (definitionOf e) of
                        BelongsTo \<Rightarrow>
                          Inr (g1\<lparr> pushedUpdates := (pushedUpdates g1)
                                 \<lparr> belongsTo := belongsTo (pushedUpdates g1) @ [operation] \<rparr> \<rparr>)
                      | HasMany \<Rightarrow>
                          Inr (g1\<lparr> pushedUpdates := (pushedUpdates g1)
                                 \<lparr> hasMany := hasMany (pushedUpdates g1) @ [operation] \<rparr> \<rparr>)
                      | ImplicitKind \<Rightarrow> Inl TypeError)))
       (\<lambda>g2.
          if \<not> willSyncRemote g2
          then schedule env (g2\<lparr> willSyncRemote := True \<rparr>) ''coalesce'' FlushRemoteQueue
          else Inr g2)"

subsection \<open>operations/remove-from-related-records.ts\<close>

text \<open>
  \<open>rel\<close> is the reference of the edge object the caller holds. \<open>None\<close> is a null or
  absent value. The caller has asserted that the edge is a collection.
\<close>

definition removeRelatedRecord ::
  "Collaborators \<Rightarrow> Graph \<Rightarrow> ref \<Rightarrow> StableRecordIdentifier \<Rightarrow> StableRecordIdentifier option \<Rightarrow>
     bool \<Rightarrow> Error + Graph" where
  "removeRelatedRecord env g rel record val isRemote =
     (case val of
        None \<Rightarrow> Inl AssertionError
      | Some v \<Rightarrow>
          (case edgeAt g rel of
             Some (Collection c) \<Rightarrow>
               if v \<notin> localMembers c then Inr g
               else if v \<notin> set (localState c) then Inl AssertionError
               else
                 removeFromInverse env
                   (setEdge g rel
                      (Collection (c\<lparr> localMembers := localMembers c - {v},
                                       localState := remove1 v (localState c) \<rparr>)))
                   v (inverseKey (edgeDefinition c)) record isRemote
           | _ \<Rightarrow> Inl TypeError))"

fun removeRelatedRecordsLoop ::
  "Collaborators \<Rightarrow> ref \<Rightarrow> StableRecordIdentifier \<Rightarrow> bool \<Rightarrow> StableRecordIdentifier list \<Rightarrow>
     Graph \<Rightarrow> Error + Graph" where
  "removeRelatedRecordsLoop env rel record isRemote [] g = Inr g"
| "removeRelatedRecordsLoop env rel record isRemote (v # vs) g =
     bindE (removeRelatedRecord env g rel record (Some v) isRemote)
       (removeRelatedRecordsLoop env rel record isRemote vs)"

definition removeFromRelatedRecords ::
  "Collaborators \<Rightarrow> Graph \<Rightarrow> Operation \<Rightarrow> bool \<Rightarrow> Error + Graph" where
  "removeFromRelatedRecords env g operation isRemote =
     bindE (get env g (opRecord operation) (field operation)) (\<lambda>(g1, rel).
       case edgeAt g1 rel of
         Some (Collection c) \<Rightarrow>
           bindE
             (case opValue operation of
                Many vs \<Rightarrow> removeRelatedRecordsLoop env rel (opRecord operation) isRemote vs g1
              | One v \<Rightarrow> removeRelatedRecord env g1 rel (opRecord operation) (Some v) isRemote
              | Null \<Rightarrow> removeRelatedRecord env g1 rel (opRecord operation) None isRemote)
             (\<lambda>g2.
                case edgeAt g2 rel of
                  Some (Collection c2) \<Rightarrow>
                    notifyChange env g2 (edgeIdentifier c2) (key (edgeDefinition c2))
                | _ \<Rightarrow> Inl TypeError)
       | _ \<Rightarrow> Inl AssertionError)"

subsection \<open>Updates and the two flushes\<close>

text \<open>The loop of the \<^verbatim>\<open>deleteRecord\<close> case of \<^verbatim>\<open>Graph.update\<close>.\<close>

fun deleteKeys :: "Collaborators \<Rightarrow> ref \<Rightarrow> string list \<Rightarrow> Graph \<Rightarrow> Error + Graph" where
  "deleteKeys env d [] g = Inr g"
| "deleteKeys env d (k # ks) g =
     (case dictGet (nodeAt g d) k of
        None \<Rightarrow> deleteKeys env d ks g
      | Some rel \<Rightarrow>
          bindE (removeCompletelyFromInverse env
                   (setNode g d (AList.update k None (nodeAt g d))) rel)
            (deleteKeys env d ks))"

definition update :: "Collaborators \<Rightarrow> Graph \<Rightarrow> Operation \<Rightarrow> bool \<Rightarrow> Error + Graph" where
  "update env g operation isRemote =
     bindE
       (if op operation = ''deleteRecord'' \<or> op operation = ''mergeIdentifiers'' then Inr g
        else
          bindE (get env g (opRecord operation) (field operation)) (\<lambda>(g1, rel).
            case edgeAt g1 rel of
              None \<Rightarrow> Inl TypeError
            | Some e \<Rightarrow> if isImplicit e then Inl AssertionError else Inr g1))
       (\<lambda>g1.
          if op operation = ''mergeIdentifiers'' then
            (case map_of (identifiers g1) (opRecord operation) of
               Some d \<Rightarrow> mergeIdentifier env g1 operation d
             | None \<Rightarrow> Inr g1)
          else if op operation = ''updateRelationship'' then
            (if \<not> isRemote then Inl AssertionError
             else bindE (assertValidRelationshipPayload env g1 operation) (\<lambda>g2.
                    updateRelationshipOperation env g2 operation))
          else if op operation = ''deleteRecord'' then
            (if \<not> isRemote then Inl AssertionError
             else
               (case map_of (identifiers g1) (opRecord operation) of
                  Some d \<Rightarrow>
                    bindE (deleteKeys env d (map fst (nodeAt g1 d)) g1) (\<lambda>g2.
                      Inr (g2\<lparr> identifiers := AList.delete (opRecord operation) (identifiers g2) \<rparr>))
                | None \<Rightarrow> Inr g1))
          else if op operation = ''replaceRelatedRecord'' then
            replaceRelatedRecord env g1 operation isRemote
          else if op operation = ''addToRelatedRecords'' then
            addToRelatedRecords env g1 operation isRemote
          else if op operation = ''removeFromRelatedRecords'' then
            removeFromRelatedRecords env g1 operation isRemote
          else if op operation = ''replaceRelatedRecords'' then
            replaceRelatedRecords env g1 operation isRemote
          else Inl AssertionError)"

text \<open>Adding to a JavaScript \<^verbatim>\<open>Set\<close>: an element already there keeps its place.\<close>

definition setAdd :: "ref \<Rightarrow> ref list \<Rightarrow> ref list" where
  "setAdd r rs = (if r \<in> set rs then rs else rs @ [r])"

definition scheduleLocalSync :: "Collaborators \<Rightarrow> Graph \<Rightarrow> ref \<Rightarrow> Error + Graph" where
  "scheduleLocalSync env g relationship =
     (let g1 = g\<lparr> updatedRelationships := setAdd relationship (updatedRelationships g) \<rparr>
      in if \<not> willSyncLocal g1
         then schedule env (g1\<lparr> willSyncLocal := True \<rparr>) ''sync'' FlushLocalQueue
         else Inr g1)"

text \<open>
  \<open>transactionRef\<close> of an edge object. The type of \<^verbatim>\<open>_transaction\<close> admits collection
  and resource edges only; an implicit edge has no such field and is left as it is.
\<close>

fun transactionRefOf :: "RelationshipEdge \<Rightarrow> nat" where
  "transactionRefOf (Collection c) = transactionRef c"
| "transactionRefOf (Resource b) = resourceTransactionRef b"
| "transactionRefOf (Implicit i) = 0"

fun setTransactionRef :: "nat \<Rightarrow> RelationshipEdge \<Rightarrow> RelationshipEdge" where
  "setTransactionRef n (Collection c) = Collection (c\<lparr> transactionRef := n \<rparr>)"
| "setTransactionRef n (Resource b) = Resource (b\<lparr> resourceTransactionRef := n \<rparr>)"
| "setTransactionRef n (Implicit i) = Implicit i"

definition addToTransaction :: "Graph \<Rightarrow> ref \<Rightarrow> Error + Graph" where
  "addToTransaction g relationship =
     (case transaction g of
        None \<Rightarrow> Inl AssertionError
      | Some t \<Rightarrow>
          (case edgeAt g relationship of
             None \<Rightarrow> Inl TypeError
           | Some e \<Rightarrow>
               Inr ((setEdge g relationship (setTransactionRef (Suc (transactionRefOf e)) e))
                      \<lparr> transaction := Some (setAdd relationship t) \<rparr>)))"

definition resetTransactionRef :: "ref \<Rightarrow> Graph \<Rightarrow> Graph" where
  "resetTransactionRef v g =
     (case edgeAt g v of
        None \<Rightarrow> g
      | Some e \<Rightarrow> setEdge g v (setTransactionRef 0 e))"

definition finalize :: "Graph \<Rightarrow> Graph" where
  "finalize g =
     (case transaction g of
        None \<Rightarrow> g
      | Some t \<Rightarrow> (fold resetTransactionRef t g)\<lparr> transaction := None \<rparr>)"

fun updateAll :: "Collaborators \<Rightarrow> Operation list \<Rightarrow> Graph \<Rightarrow> Error + Graph" where
  "updateAll env [] g = Inr g"
| "updateAll env (operation # ops) g =
     bindE (update env g operation True) (updateAll env ops)"

definition flushRemoteQueue :: "Collaborators \<Rightarrow> Graph \<Rightarrow> Error + Graph" where
  "flushRemoteQueue env g =
     (if \<not> willSyncRemote g then Inr g
      else
        let ds = deletions (pushedUpdates g);
            hs = hasMany (pushedUpdates g);
            bs = belongsTo (pushedUpdates g);
            g1 = g\<lparr> transaction := Some [], willSyncRemote := False,
                    pushedUpdates := \<lparr> belongsTo = [], hasMany = [], deletions = [] \<rparr> \<rparr>
        in bindE (updateAll env ds g1) (\<lambda>g2.
           bindE (updateAll env hs g2) (\<lambda>g3.
           bindE (updateAll env bs g3) (\<lambda>g4.
             Inr (finalize g4)))))"

fun syncAll :: "Collaborators \<Rightarrow> ref list \<Rightarrow> Graph \<Rightarrow> Error + Graph" where
  "syncAll env [] g = Inr g"
| "syncAll env (rel # rels) g = bindE (syncRemoteToLocal env g rel) (syncAll env rels)"

definition flushLocalQueue :: "Collaborators \<Rightarrow> Graph \<Rightarrow> Error + Graph" where
  "flushLocalQueue env g =
     (if \<not> willSyncLocal g then Inr g
      else
        syncAll env (updatedRelationships g)
          (g\<lparr> willSyncLocal := False, updatedRelationships := [] \<rparr>))"

text \<open>
  \<^verbatim>\<open>Graph.destroy\<close>, on the global registry \<^verbatim>\<open>Graphs\<close> (a \<^verbatim>\<open>Map\<close>) and the graph. A registry key
  is a store wrapper, the store behind it (the second deletion of the development build),
  or null.
\<close>

definition destroy ::
  "Collaborators \<Rightarrow> (ref option \<times> 'g) list \<Rightarrow> Graph \<Rightarrow>
     Error + ((ref option \<times> 'g) list \<times> Graph)" where
  "destroy env Graphs g =
     (let Graphs1 = AList.delete (store g) Graphs
      in bindE (getStore env (store g)) (\<lambda>s.
           Inr (AList.delete s Graphs1,
                g\<lparr> identifiers := [], store := None, isDestroyed := True \<rparr>)))"

subsection \<open>A concrete instance\<close>

text \<open>
  A schema with two models: a post has many comments (field \<open>comments\<close>, whose inverse
  \<open>post\<close> is not declared on the comment and is therefore implicit) and belongs to an
  author (field \<open>author\<close>). The instance is used to run the definitions on concrete
  inputs.
\<close>

definition post1 :: StableRecordIdentifier where
  "post1 = Identifier ''post'' ''post:1''"

definition comment1 :: StableRecordIdentifier where
  "comment1 = Identifier ''comment'' ''comment:1''"

definition comment2 :: StableRecordIdentifier where
  "comment2 = Identifier ''comment'' ''comment:2''"

definition commentsMeta :: UpgradedMeta where
  "commentsMeta = \<lparr> kind = HasMany, key = ''comments'', inverseKey = ''post'',
                    inverseIsAsync = False \<rparr>"

definition postMeta :: UpgradedMeta where
  "postMeta = \<lparr> kind = ImplicitKind, key = ''post'', inverseKey = ''comments'',
                inverseIsAsync = False \<rparr>"

definition authorMeta :: UpgradedMeta where
  "authorMeta = \<lparr> kind = BelongsTo, key = ''author'', inverseKey = ''posts'',
                  inverseIsAsync = False \<rparr>"

definition exampleUpgradeDefinition ::
  "StableRecordIdentifier \<Rightarrow> string \<Rightarrow> EdgeDefinition option" where
  "exampleUpgradeDefinition ident propertyName =
     (if (type ident = ''post'' \<and> propertyName = ''comments'')
         \<or> (type ident = ''comment'' \<and> propertyName = ''post'')
      then Some \<lparr> lhs_definition = commentsMeta, rhs_definition = Some postMeta \<rparr>
      else if type ident = ''post'' \<and> propertyName = ''author''
      then Some \<lparr> lhs_definition = authorMeta, rhs_definition = None \<rparr>
      else None)"

definition exampleCreateResourceRelationship ::
  "UpgradedMeta \<Rightarrow> StableRecordIdentifier \<Rightarrow> ResourceRelationship" where
  "exampleCreateResourceRelationship def ident =
     \<lparr> resourceDefinition = def, resourceIdentifier = ident,
       resourceState = \<lparr> hasReceivedData = False, isEmpty = True \<rparr>,
       localValue = None, remoteValue = None,
       resourceMeta = None, resourceLinks = None, resourceTransactionRef = 0 \<rparr>"

definition exampleLegacyGetResourceRelationshipData :: "ResourceRelationship \<Rightarrow> Payload" where
  "exampleLegacyGetResourceRelationshipData source =
     \<lparr> payloadData = (if hasReceivedData (resourceState source)
                       then Some (ResourceData (localValue source)) else None),
       payloadLinks = resourceLinks source, payloadMeta = resourceMeta source \<rparr>"

text \<open>The store behind the wrapper \<open>w\<close> is the object \<open>w + 1\<close>; a null wrapper has none.\<close>

definition exampleGetStore :: "ref option \<Rightarrow> Error + ref option" where
  "exampleGetStore w = (case w of None \<Rightarrow> Inl TypeError | Some n \<Rightarrow> Inr (Some (Suc n)))"

text \<open>
  The collaborators of the instance that receive the graph: all but one leave it as it is.
  \<open>baseCollaborators\<close> is complete enough for \<open>get\<close>, which the mirrored removal below
  calls.
\<close>

definition baseCollaborators :: Collaborators where
  "baseCollaborators =
     \<lparr> upgradeDefinition = exampleUpgradeDefinition,
       isLHS = (\<lambda>info t propertyName. t = ''post''),
       createState = \<lparr> hasReceivedData = False, isEmpty = True \<rparr>,
       createResourceRelationship = exampleCreateResourceRelationship,
       legacyGetResourceRelationshipData = exampleLegacyGetResourceRelationshipData,
       getStore = exampleGetStore,
       notifyChange = (\<lambda>g ident k. Inr g),
       removeFromInverse = (\<lambda>g ident k v isRemote. Inr g),
       destroyRelationship = (\<lambda>g rel silenceNotifications. Inr g),
       removeCompletelyFromInverse = (\<lambda>g rel. Inr g),
       mergeIdentifier = (\<lambda>g operation d. Inr g),
       assertValidRelationshipPayload = (\<lambda>g operation. Inr g),
       updateRelationshipOperation = (\<lambda>g operation. Inr g),
       replaceRelatedRecord = (\<lambda>g operation isRemote. Inr g),
       addToRelatedRecords = (\<lambda>g operation isRemote. Inr g),
       replaceRelatedRecords = (\<lambda>g operation isRemote. Inr g),
       syncRemoteToLocal = (\<lambda>g rel. Inr g) \<rparr>"

text \<open>
  Modelled from the spec: \<^verbatim>\<open>removeFromInverse\<close> of \<^verbatim>\<open>replace-related-records\<close>, for
  an implicit inverse: the mirrored change. The edge of the related identifier at the
  inverse key loses the record from its local members, and from its remote members when
  \<open>isRemote\<close>. The instance has implicit inverses only; another shape is left as it is.
\<close>

definition exampleRemoveFromInverse ::
  "Graph \<Rightarrow> StableRecordIdentifier \<Rightarrow> string \<Rightarrow> StableRecordIdentifier \<Rightarrow> bool \<Rightarrow> Error + Graph" where
  "exampleRemoveFromInverse g ident k v isRemote =
     bindE (get baseCollaborators g ident k) (\<lambda>(g1, rel).
       case edgeAt g1 rel of
         Some (Implicit i) \<Rightarrow>
           Inr (setEdge g1 rel
                  (Implicit (i\<lparr> localMembers := localMembers i - {v},
                                 remoteMembers := (if isRemote then remoteMembers i - {v}
                                                   else remoteMembers i) \<rparr>)))
       | _ \<Rightarrow> Inr g1)"

definition exampleCollaborators :: Collaborators where
  "exampleCollaborators = baseCollaborators\<lparr> removeFromInverse := exampleRemoveFromInverse \<rparr>"

subsection \<open>Notions used to state the properties\<close>

text \<open>
  Every dictionary reference of the identifier table points into the store of
  dictionaries, as it does in any graph the code can build.
\<close>

definition identifiersAllocated :: "Graph \<Rightarrow> bool" where
  "identifiersAllocated g = list_all (\<lambda>(ident, d). d < length (nodes g)) (identifiers g)"

text \<open>The edge \<^verbatim>\<open>Graph.get\<close> creates for a definition.\<close>

definition newEdge :: "Collaborators \<Rightarrow> UpgradedMeta \<Rightarrow> StableRecordIdentifier \<Rightarrow> RelationshipEdge" where
  "newEdge env m ident =
     (case kind m of
        BelongsTo \<Rightarrow> Resource (createResourceRelationship env m ident)
      | HasMany \<Rightarrow> Collection (createCollectionRelationship (createState env) m ident)
      | ImplicitKind \<Rightarrow> Implicit \<lparr> edgeDefinition = m, edgeIdentifier = ident,
                                     localMembers = {}, remoteMembers = {} \<rparr>)"

text \<open>
  The definition \<^verbatim>\<open>Graph.get\<close> resolves for a field: the side of the resolver's
  answer that \<^verbatim>\<open>isLHS\<close> selects.
\<close>

definition resolveMeta :: "Collaborators \<Rightarrow> StableRecordIdentifier \<Rightarrow> string \<Rightarrow> UpgradedMeta option" where
  "resolveMeta env ident propertyName =
     (case upgradeDefinition env ident propertyName of
        None \<Rightarrow> None
      | Some info \<Rightarrow> (if isLHS env info (type ident) propertyName
                       then Some (lhs_definition info) else rhs_definition info))"

text \<open>
  The graph \<^verbatim>\<open>Graph.get\<close> works on once the node of the identifier exists.
\<close>

definition withNode :: "Graph \<Rightarrow> StableRecordIdentifier \<Rightarrow> Graph" where
  "withNode g ident =
     (case map_of (identifiers g) ident of
        Some d \<Rightarrow> g
      | None \<Rightarrow> g\<lparr> nodes := nodes g @ [[]],
                    identifiers := AList.update ident (length (nodes g)) (identifiers g) \<rparr>)"

text \<open>
  A graph of the instance: post 1 has the comments 1 and 2 locally and the comment 1
  remotely; each comment has its implicit inverse.
\<close>

definition exampleComments :: CollectionRelationship where
  "exampleComments =
     \<lparr> edgeDefinition = commentsMeta, edgeIdentifier = post1,
       localMembers = {comment1, comment2}, remoteMembers = {comment1},
       state = \<lparr> hasReceivedData = True, isEmpty = False \<rparr>,
       localState = [comment1, comment2], remoteState = [comment1],
       meta = None, links = None, transactionRef = 0 \<rparr>"

definition inverseOfComment1 :: ImplicitRelationship where
  "inverseOfComment1 =
     \<lparr> edgeDefinition = postMeta, edgeIdentifier = comment1,
       localMembers = {post1}, remoteMembers = {post1} \<rparr>"

definition inverseOfComment2 :: ImplicitRelationship where
  "inverseOfComment2 =
     \<lparr> edgeDefinition = postMeta, edgeIdentifier = comment2,
       localMembers = {post1}, remoteMembers = {} \<rparr>"

definition exampleGraph :: Graph where
  "exampleGraph =
     (newGraph 7)
       \<lparr> edges := [Collection exampleComments, Implicit inverseOfComment1,
                   Implicit inverseOfComment2],
         nodes := [[(''comments'', Some 0)], [(''post'', Some 1)], [(''post'', Some 2)]],
         identifiers := [(post1, 0), (comment1, 1), (comment2, 2)] \<rparr>"

text \<open>Three remote operations of the instance, one for each bucket.\<close>

definition deleteComment1 :: Operation where
  "deleteComment1 = \<lparr> op = ''deleteRecord'', opRecord = comment1, field = [], opValue = Null, index = None \<rparr>"

definition replaceComments :: Operation where
  "replaceComments = \<lparr> op = ''replaceRelatedRecords'', opRecord = post1, field = ''comments'',
                        opValue = Many [comment2], index = None \<rparr>"

definition replaceAuthor :: Operation where
  "replaceAuthor = \<lparr> op = ''replaceRelatedRecord'', opRecord = post1, field = ''author'',
                      opValue = Null, index = None \<rparr>"

text \<open>
  A function on graphs keeps a property when every normal return from a graph that has
  the property has it too.
\<close>

definition preserves :: "(Graph \<Rightarrow> bool) \<Rightarrow> (Graph \<Rightarrow> Error + Graph) \<Rightarrow> bool" where
  "preserves P f \<longleftrightarrow> (\<forall>g g'. P g \<longrightarrow> f g = Inr g' \<longrightarrow> P g')"

text \<open>Every imported function that receives the graph keeps the property.\<close>

definition collaboratorsPreserve :: "(Graph \<Rightarrow> bool) \<Rightarrow> Collaborators \<Rightarrow> bool" where
  "collaboratorsPreserve P env \<longleftrightarrow>
     (\<forall>ident k. preserves P (\<lambda>g. notifyChange env g ident k))
   \<and> (\<forall>ident k v isRemote. preserves P (\<lambda>g. removeFromInverse env g ident k v isRemote))
   \<and> (\<forall>rel s. preserves P (\<lambda>g. destroyRelationship env g rel s))
   \<and> (\<forall>rel. preserves P (\<lambda>g. removeCompletelyFromInverse env g rel))
   \<and> (\<forall>operation d. preserves P (\<lambda>g. mergeIdentifier env g operation d))
   \<and> (\<forall>operation. preserves P (\<lambda>g. assertValidRelationshipPayload env g operation))
   \<and> (\<forall>operation. preserves P (\<lambda>g. updateRelationshipOperation env g operation))
   \<and> (\<forall>operation isRemote. preserves P (\<lambda>g. replaceRelatedRecord env g operation isRemote))
   \<and> (\<forall>operation isRemote. preserves P (\<lambda>g. addToRelatedRecords env g operation isRemote))
   \<and> (\<forall>operation isRemote. preserves P (\<lambda>g. replaceRelatedRecords env g operation isRemote))
   \<and> (\<forall>rel. preserves P (\<lambda>g. syncRemoteToLocal env g rel))"

text \<open>
  The property survives the writes that \<^verbatim>\<open>Graph.get\<close>, \<^verbatim>\<open>Graph.update\<close> and
  \<^verbatim>\<open>removeRelatedRecord\<close> make themselves: a new node, a changed dictionary, a new
  edge, a collection that loses a local member, a deleted node entry.
\<close>

definition keptByOwnWrites :: "Collaborators \<Rightarrow> (Graph \<Rightarrow> bool) \<Rightarrow> bool" where
  "keptByOwnWrites env P \<longleftrightarrow>
     (\<forall>g ident. P g \<longrightarrow> P (withNode g ident))
   \<and> (\<forall>g d n. P g \<longrightarrow> P (setNode g d n))
   \<and> (\<forall>g m ident. P g \<longrightarrow> P (g\<lparr> edges := edges g @ [newEdge env m ident] \<rparr>))
   \<and> (\<forall>g rel c v. P g \<longrightarrow> edgeAt g rel = Some (Collection c) \<longrightarrow> v \<in> localMembers c \<longrightarrow>
          v \<in> set (localState c) \<longrightarrow>
          P (setEdge g rel (Collection (c\<lparr> localMembers := localMembers c - {v},
                                            localState := remove1 v (localState c) \<rparr>))))
   \<and> (\<forall>g ident. P g \<longrightarrow> P (g\<lparr> identifiers := AList.delete ident (identifiers g) \<rparr>))"

text \<open>
  Every edge whose \<open>transactionRef\<close> is not zero is a member of the open transaction.
\<close>

definition transactionInvariant :: "Graph \<Rightarrow> bool" where
  "transactionInvariant g \<longleftrightarrow>
     (\<forall>r \<in> {..<length (edges g)}.
        transactionRefOf (edges g ! r) \<noteq> 0 \<longrightarrow>
        (case transaction g of None \<Rightarrow> False | Some t \<Rightarrow> r \<in> set t))"

text \<open>No transaction is open and every \<open>transactionRef\<close> is zero.\<close>

definition settled :: "Graph \<Rightarrow> bool" where
  "settled g \<longleftrightarrow>
     transaction g = None \<and> (\<forall>r \<in> {..<length (edges g)}. transactionRefOf (edges g ! r) = 0)"

text \<open>The number of callbacks pending on a queue of the scheduler.\<close>

definition pending :: "string \<Rightarrow> Graph \<Rightarrow> nat" where
  "pending queue g = length (filter (\<lambda>(q, cb). q = queue) (scheduled g))"

text \<open>
  A flush is pending on a queue exactly when the flag of that queue is set, and then
  only one; the remote flush is queued on \<open>coalesce\<close>, the local flush on \<open>sync\<close>.
\<close>

definition scheduleInvariant :: "Graph \<Rightarrow> bool" where
  "scheduleInvariant g \<longleftrightarrow>
     list_all (\<lambda>entry. entry = (''coalesce'', FlushRemoteQueue) \<or> entry = (''sync'', FlushLocalQueue))
       (scheduled g)
   \<and> pending ''coalesce'' g = (if willSyncRemote g then 1 else 0)
   \<and> pending ''sync'' g = (if willSyncLocal g then 1 else 0)"

text \<open>
  Modelled from the spec: the scheduler of the store, which runs a queued callback once.
  \<open>runScheduled env g n\<close> takes the \<open>n\<close>-th pending callback off the queue and runs it;
  the scheduler may pick any.
\<close>

definition runScheduled :: "Collaborators \<Rightarrow> Graph \<Rightarrow> nat \<Rightarrow> Error + Graph" where
  "runScheduled env g n =
     (if n < length (scheduled g) then
        let g1 = g\<lparr> scheduled := take n (scheduled g) @ drop (Suc n) (scheduled g) \<rparr>
        in (case snd (scheduled g ! n) of
              FlushRemoteQueue \<Rightarrow> flushRemoteQueue env g1
            | FlushLocalQueue \<Rightarrow> flushLocalQueue env g1)
      else Inr g)"

text \<open>What can happen to a graph: calls of its entry points and runs of the scheduler.\<close>

datatype Event =
    Push Operation
  | Update Operation bool
  | ScheduleLocalSync ref
  | RunScheduled nat

fun step :: "Collaborators \<Rightarrow> Graph \<Rightarrow> Event \<Rightarrow> Error + Graph" where
  "step env g (Push operation) = push env g operation"
| "step env g (Update operation isRemote) = update env g operation isRemote"
| "step env g (ScheduleLocalSync rel) = scheduleLocalSync env g rel"
| "step env g (RunScheduled n) = runScheduled env g n"

fun run :: "Collaborators \<Rightarrow> Event list \<Rightarrow> Graph \<Rightarrow> Error + Graph" where
  "run env [] g = Inr g"
| "run env (ev # evs) g = bindE (step env g ev) (run env evs)"

text \<open>
  The membership set and the ordered sequence of each side of a collection edge hold the
  same elements, the sequence holding each once (so that sizes agree too).
\<close>

definition collectionAgrees :: "CollectionRelationship \<Rightarrow> bool" where
  "collectionAgrees c \<longleftrightarrow>
     set (localState c) = localMembers c \<and> distinct (localState c)
   \<and> set (remoteState c) = remoteMembers c \<and> distinct (remoteState c)"

definition graphAgrees :: "Graph \<Rightarrow> bool" where
  "graphAgrees g \<longleftrightarrow>
     list_all (\<lambda>e. case e of Collection c \<Rightarrow> collectionAgrees c | _ \<Rightarrow> True) (edges g)"

text \<open>
  What \<^verbatim>\<open>removeRelatedRecord\<close> writes to the edge it is given, the call of
  \<^verbatim>\<open>removeFromInverse\<close> left aside.
\<close>

definition removeLocal :: "StableRecordIdentifier \<Rightarrow> CollectionRelationship \<Rightarrow> CollectionRelationship" where
  "removeLocal v c =
     (if v \<in> localMembers c
      then c\<lparr> localMembers := localMembers c - {v}, localState := remove1 v (localState c) \<rparr>
      else c)"

text \<open>The identifiers an operation value lists.\<close>

fun operationValues :: "OperationValue \<Rightarrow> StableRecordIdentifier list" where
  "operationValues Null = []"
| "operationValues (One v) = [v]"
| "operationValues (Many vs) = vs"

text \<open>The edge that \<^verbatim>\<open>Graph.has\<close> and \<^verbatim>\<open>Graph.get\<close> find stored for an identifier and a field.\<close>

definition entryOf :: "Graph \<Rightarrow> StableRecordIdentifier \<Rightarrow> string \<Rightarrow> ref option" where
  "entryOf g ident propertyName =
     (case map_of (identifiers g) ident of
        None \<Rightarrow> None
      | Some d \<Rightarrow> dictGet (nodeAt g d) propertyName)"

text \<open>
  A function on graphs leaves a collection edge alone: the edge object \<open>rel\<close>, stored
  for the identifier and the field, is the same collection afterwards and is still stored
  there.
\<close>

definition leavesEdgeAlone ::
  "StableRecordIdentifier \<Rightarrow> string \<Rightarrow> ref \<Rightarrow> (Graph \<Rightarrow> Error + Graph) \<Rightarrow> bool" where
  "leavesEdgeAlone ident propertyName rel f \<longleftrightarrow>
     (\<forall>g g' c. f g = Inr g' \<longrightarrow> entryOf g ident propertyName = Some rel \<longrightarrow>
        edgeAt g rel = Some (Collection c) \<longrightarrow>
        entryOf g' ident propertyName = Some rel \<and> edgeAt g' rel = Some (Collection c))"

text \<open>
  A function on graphs never adds a local member to a collection edge: the edge object
  \<open>rel\<close>, stored for the identifier and the field, is a collection afterwards, with no
  local member it did not have, and is still stored there.
\<close>

definition neverAddsLocal ::
  "StableRecordIdentifier \<Rightarrow> string \<Rightarrow> ref \<Rightarrow> (Graph \<Rightarrow> Error + Graph) \<Rightarrow> bool" where
  "neverAddsLocal ident propertyName rel f \<longleftrightarrow>
     (\<forall>g g' c. f g = Inr g' \<longrightarrow> entryOf g ident propertyName = Some rel \<longrightarrow>
        edgeAt g rel = Some (Collection c) \<longrightarrow>
        entryOf g' ident propertyName = Some rel
        \<and> (\<exists>c'. edgeAt g' rel = Some (Collection c') \<and> localMembers c' \<subseteq> localMembers c))"

text \<open>A removal of comment 1 from the comments of post 1.\<close>

definition removeComment1 :: Operation where
  "removeComment1 = \<lparr> op = ''removeFromRelatedRecords'', opRecord = post1, field = ''comments'',
                       opValue = One comment1, index = None \<rparr>"

subsection \<open>Collaborators that write edges\<close>

text \<open>
  A function on graphs writes at most the edge stored for an identifier and a field: every
  other edge object is as before, every stored entry is kept, and an entry that is new
  refers to an edge object that is new. This is the footprint of a function that fetches
  the edge with \<^verbatim>\<open>Graph.get\<close> and then changes it.
\<close>

definition writesOnlyStoredEdge ::
  "StableRecordIdentifier \<Rightarrow> string \<Rightarrow> (Graph \<Rightarrow> Error + Graph) \<Rightarrow> bool" where
  "writesOnlyStoredEdge ident propertyName f \<longleftrightarrow>
     (\<forall>g g'. f g = Inr g' \<longrightarrow>
        (\<forall>rel e. edgeAt g rel = Some e \<longrightarrow> entryOf g ident propertyName \<noteq> Some rel \<longrightarrow>
             edgeAt g' rel = Some e)
      \<and> (\<forall>i k rel. entryOf g i k = Some rel \<longrightarrow> entryOf g' i k = Some rel)
      \<and> (\<forall>i k rel. entryOf g' i k = Some rel \<longrightarrow>
             entryOf g i k = Some rel \<or> length (edges g) \<le> rel))"

text \<open>
  Modelled from the spec: \<^verbatim>\<open>removeFromInverse\<close> of \<^verbatim>\<open>replace-related-records\<close>, for
  every shape of inverse: the mirrored change. The edge of the related identifier at the
  inverse key loses the record on its local side, and on its remote side when
  \<open>isRemote\<close>; for a collection both the membership set and the ordered sequence are
  changed. \<open>env\<close> gives the schema to \<^verbatim>\<open>Graph.get\<close>.
\<close>

definition mirrorRemoveFromInverse ::
  "Collaborators \<Rightarrow> Graph \<Rightarrow> StableRecordIdentifier \<Rightarrow> string \<Rightarrow> StableRecordIdentifier \<Rightarrow> bool
     \<Rightarrow> Error + Graph" where
  "mirrorRemoveFromInverse env g ident k v isRemote =
     bindE (get env g ident k) (\<lambda>(g1, rel).
       case edgeAt g1 rel of
         None \<Rightarrow> Inl TypeError
       | Some (Implicit i) \<Rightarrow>
           Inr (setEdge g1 rel
                  (Implicit (i\<lparr> localMembers := localMembers i - {v},
                                 remoteMembers := (if isRemote then remoteMembers i - {v}
                                                   else remoteMembers i) \<rparr>)))
       | Some (Collection c) \<Rightarrow>
           Inr (setEdge g1 rel
                  (Collection (c\<lparr> localMembers := localMembers c - {v},
                                   remoteMembers := (if isRemote then remoteMembers c - {v}
                                                     else remoteMembers c),
                                   localState := remove1 v (localState c),
                                   remoteState := (if isRemote then remove1 v (remoteState c)
                                                   else remoteState c) \<rparr>)))
       | Some (Resource b) \<Rightarrow>
           Inr (setEdge g1 rel
                  (Resource (b\<lparr> localValue := (if localValue b = Some v then None else localValue b),
                                 remoteValue := (if isRemote \<and> remoteValue b = Some v then None
                                                 else remoteValue b) \<rparr>))))"

text \<open>
  A second instance, in which the inverse is a collection too: a post has many tags
  (field \<open>tags\<close>) and a tag has many posts (field \<open>posts\<close>). Post 1 has the tag 1,
  locally and remotely, and the tag 1 has the post 1.
\<close>

definition tag1 :: StableRecordIdentifier where
  "tag1 = Identifier ''tag'' ''tag:1''"

definition tagsMeta :: UpgradedMeta where
  "tagsMeta = \<lparr> kind = HasMany, key = ''tags'', inverseKey = ''posts'', inverseIsAsync = False \<rparr>"

definition postsMeta :: UpgradedMeta where
  "postsMeta = \<lparr> kind = HasMany, key = ''posts'', inverseKey = ''tags'', inverseIsAsync = False \<rparr>"

definition tagUpgradeDefinition ::
  "StableRecordIdentifier \<Rightarrow> string \<Rightarrow> EdgeDefinition option" where
  "tagUpgradeDefinition ident propertyName =
     (if (type ident = ''post'' \<and> propertyName = ''tags'')
         \<or> (type ident = ''tag'' \<and> propertyName = ''posts'')
      then Some \<lparr> lhs_definition = tagsMeta, rhs_definition = Some postsMeta \<rparr>
      else exampleUpgradeDefinition ident propertyName)"

definition tagBaseCollaborators :: Collaborators where
  "tagBaseCollaborators = baseCollaborators\<lparr> upgradeDefinition := tagUpgradeDefinition \<rparr>"

definition tagCollaborators :: Collaborators where
  "tagCollaborators =
     tagBaseCollaborators\<lparr> removeFromInverse := mirrorRemoveFromInverse tagBaseCollaborators \<rparr>"

definition postTags :: CollectionRelationship where
  "postTags =
     \<lparr> edgeDefinition = tagsMeta, edgeIdentifier = post1,
       localMembers = {tag1}, remoteMembers = {tag1},
       state = \<lparr> hasReceivedData = True, isEmpty = False \<rparr>,
       localState = [tag1], remoteState = [tag1],
       meta = None, links = None, transactionRef = 0 \<rparr>"

definition tagPosts :: CollectionRelationship where
  "tagPosts =
     \<lparr> edgeDefinition = postsMeta, edgeIdentifier = tag1,
       localMembers = {post1}, remoteMembers = {post1},
       state = \<lparr> hasReceivedData = True, isEmpty = False \<rparr>,
       localState = [post1], remoteState = [post1],
       meta = None, links = None, transactionRef = 0 \<rparr>"

definition taggedGraph :: Graph where
  "taggedGraph =
     (newGraph 7)
       \<lparr> edges := [Collection postTags, Collection tagPosts],
         nodes := [[(''tags'', Some 0)], [(''posts'', Some 1)]],
         identifiers := [(post1, 0), (tag1, 1)] \<rparr>"

definition removeTag1 :: Operation where
  "removeTag1 = \<lparr> op = ''removeFromRelatedRecords'', opRecord = post1, field = ''tags'',
                   opValue = Many [tag1], index = None \<rparr>"









section \<open>Properties\<close>

subsection \<open>Auxiliary facts\<close>

lemma bindE_Inr [simp]: "bindE (Inr x) f = f x"
  by (simp add: bindE_def)

lemma bindE_Inl [simp]: "bindE (Inl e) f = Inl e"
  by (simp add: bindE_def)

lemma bindE_eq_Inr: "bindE m f = Inr y \<longleftrightarrow> (\<exists>x. m = Inr x \<and> f x = Inr y)"
  by (cases m) simp_all

lemma dictGet_update_same [simp]: "dictGet (AList.update k (Some r) n) k = Some r"
  by (simp add: dictGet_def update_conv')

lemma dictGet_update_None [simp]: "dictGet (AList.update k None n) k = None"
  by (simp add: dictGet_def update_conv')

lemma dictGet_update_other [simp]: "k' \<noteq> k \<Longrightarrow> dictGet (AList.update k v n) k' = dictGet n k'"
  by (simp add: dictGet_def update_conv')

lemma dictGet_Nil [simp]: "dictGet [] k = None"
  by (simp add: dictGet_def)

lemma nodeAt_setNode:
  "nodeAt (setNode g d n) d' = (if d' = d \<and> d < length (nodes g) then n else nodeAt g d')"
  by (simp add: nodeAt_def setNode_def)

lemma edgeAt_setEdge:
  "edgeAt (setEdge g r e) r' = (if r' = r \<and> r < length (edges g) then Some e else edgeAt g r')"
  by (simp add: edgeAt_def setEdge_def)

lemma identifiersAllocatedD:
  "identifiersAllocated g \<Longrightarrow> map_of (identifiers g) ident = Some d \<Longrightarrow> d < length (nodes g)"
  by (auto simp: identifiersAllocated_def list_all_iff dest!: map_of_SomeD)

lemma get_cases:
  assumes "get env g ident propertyName = Inr (g1, r)"
  shows "(\<exists>d. map_of (identifiers g) ident = Some d \<and> dictGet (nodeAt g d) propertyName = Some r \<and> g1 = g)
       \<or> (\<exists>d m. \<not> has g ident propertyName \<and> propertyName \<noteq> [] \<and> resolveMeta env ident propertyName = Some m
             \<and> map_of (identifiers (withNode g ident)) ident = Some d
             \<and> r = length (edges g)
             \<and> g1 = setNode ((withNode g ident)\<lparr> edges := edges g @ [newEdge env m ident] \<rparr>) d
                      (AList.update propertyName (Some r) (nodeAt (withNode g ident) d)))"
proof (cases "map_of (identifiers g) ident")
  case None
  with assms show ?thesis
    by (auto simp: get_def has_def withNode_def resolveMeta_def newEdge_def nodeAt_def update_conv' Let_def
             split: if_splits option.splits Kind.splits)
next
  case (Some d)
  with assms show ?thesis
    by (auto simp: get_def has_def withNode_def resolveMeta_def newEdge_def Let_def
             split: if_splits option.splits Kind.splits)
qed


lemma get_again:
  assumes "map_of (identifiers g) ident = Some d" "dictGet (nodeAt g d) propertyName = Some r"
    "propertyName \<noteq> []"
  shows "get env g ident propertyName = Inr (g, r)"
  using assms by (simp add: get_def)

lemma get_propertyName: "get env g ident propertyName = Inr x \<Longrightarrow> propertyName \<noteq> []"
  by (auto simp: get_def split: if_splits)

lemma withNode_allocated:
  assumes "identifiersAllocated g" "map_of (identifiers (withNode g ident)) ident = Some d"
  shows "d < length (nodes (withNode g ident))"
  using assms
  by (auto simp: withNode_def update_conv' dest: identifiersAllocatedD split: option.splits)

subsection \<open>Graph.get caches the edge it creates\<close>

lemma set_AList_update:
  "x \<in> set (AList.update k v al) \<Longrightarrow> x = (k, v) \<or> x \<in> set al"
  by (induction al) (auto split: if_splits)

lemma withNode_keeps_allocated:
  assumes "identifiersAllocated g"
  shows "identifiersAllocated (withNode g ident)"
  using assms
  by (auto simp: identifiersAllocated_def withNode_def list_all_iff
           split: option.splits dest!: set_AList_update)

lemma get_allocated:
  assumes alloc: "identifiersAllocated g"
      and get: "get env g ident propertyName = Inr (g1, r)"
  shows "identifiersAllocated g1"
  using get_cases [OF get]
proof (elim disjE exE conjE)
  assume "g1 = g" with alloc show ?thesis by simp
next
  fix d m
  assume g1: "g1 = setNode ((withNode g ident)\<lparr> edges := edges g @ [newEdge env m ident] \<rparr>) d
                      (AList.update propertyName (Some r) (nodeAt (withNode g ident) d))"
  from withNode_keeps_allocated [OF alloc, of ident] show ?thesis
    by (simp add: g1 identifiersAllocated_def setNode_def)
qed

lemma newGraph_allocated: "identifiersAllocated (newGraph s)"
  by (simp add: identifiersAllocated_def newGraph_def)

text \<open>
  Claim C10. A successful \<open>get\<close> on a graph whose identifier table is allocated (as
  that of a new graph is) returns an edge that the next \<open>get\<close> of the same identifier
  and field returns again, leaving the graph as it is; \<open>has\<close> is true afterwards and the
  table is still allocated. If \<open>has\<close> was true before, the graph is unchanged;
  otherwise the node entry exists afterwards and the store holds one more edge, of the
  shape the resolved definition asks for (\<open>newEdge\<close>).
\<close>

theorem get_is_cached:
  assumes alloc: "identifiersAllocated g"
      and get: "get env g ident propertyName = Inr (g1, r)"
  shows "get env g1 ident propertyName = Inr (g1, r)
       \<and> has g1 ident propertyName
       \<and> identifiersAllocated g1
       \<and> (has g ident propertyName \<longrightarrow> g1 = g)
       \<and> (\<not> has g ident propertyName \<longrightarrow>
            (\<exists>m. resolveMeta env ident propertyName = Some m
                \<and> map_of (identifiers g1) ident \<noteq> None
                \<and> r = length (edges g)
                \<and> edges g1 = edges g @ [newEdge env m ident]))"
proof -
  have name: "propertyName \<noteq> []" using get by (rule get_propertyName)
  from get_cases [OF get] show ?thesis
  proof (elim disjE exE conjE)
    fix d
    assume d: "map_of (identifiers g) ident = Some d"
       and r: "dictGet (nodeAt g d) propertyName = Some r" and g1: "g1 = g"
    have "has g ident propertyName" using d r by (simp add: has_def)
    with d r g1 name alloc show ?thesis by (simp add: get_again)
  next
    fix d m
    assume nohas: "\<not> has g ident propertyName"
       and m: "resolveMeta env ident propertyName = Some m"
       and d: "map_of (identifiers (withNode g ident)) ident = Some d"
       and r: "r = length (edges g)"
       and g1: "g1 = setNode ((withNode g ident)\<lparr> edges := edges g @ [newEdge env m ident] \<rparr>) d
                      (AList.update propertyName (Some r) (nodeAt (withNode g ident) d))"
    have dlt: "d < length (nodes (withNode g ident))"
      using alloc d by (rule withNode_allocated)
    have ids: "map_of (identifiers g1) ident = Some d"
      using d by (simp add: g1 setNode_def)
    have entry: "dictGet (nodeAt g1 d) propertyName = Some r"
      using dlt by (simp add: g1 nodeAt_setNode)
    have edges: "edges g1 = edges g @ [newEdge env m ident]"
      by (simp add: g1 setNode_def)
    have "get env g1 ident propertyName = Inr (g1, r)"
      using ids entry name by (rule get_again)
    moreover have "has g1 ident propertyName"
      using ids entry by (simp add: has_def)
    moreover have "identifiersAllocated g1"
      using alloc get by (rule get_allocated)
    ultimately show ?thesis using nohas m ids r edges by simp
  qed
qed

theorem get_is_cached_witness:
  "identifiersAllocated (newGraph 7)
   \<and> get exampleCollaborators (newGraph 7) post1 ''comments''
       = Inr ((newGraph 7)\<lparr> edges := [Collection (createCollectionRelationship
                                        \<lparr> hasReceivedData = False, isEmpty = True \<rparr> commentsMeta post1)],
                             nodes := [[(''comments'', Some 0)]],
                             identifiers := [(post1, 0)] \<rparr>, 0)
   \<and> has ((newGraph 7)\<lparr> edges := [Collection (createCollectionRelationship
                                        \<lparr> hasReceivedData = False, isEmpty = True \<rparr> commentsMeta post1)],
                             nodes := [[(''comments'', Some 0)]],
                             identifiers := [(post1, 0)] \<rparr>) post1 ''comments''
   \<and> \<not> has (newGraph 7) post1 ''comments''"
proof -
  have a: "identifiersAllocated (newGraph 7)" by code_simp
  have b: "get exampleCollaborators (newGraph 7) post1 ''comments''
       = Inr ((newGraph 7)\<lparr> edges := [Collection (createCollectionRelationship
                                        \<lparr> hasReceivedData = False, isEmpty = True \<rparr> commentsMeta post1)],
                             nodes := [[(''comments'', Some 0)]],
                             identifiers := [(post1, 0)] \<rparr>, 0)" by code_simp
  have c: "\<not> has (newGraph 7) post1 ''comments''" by code_simp
  from get_is_cached [OF a b] c show ?thesis using a b by simp
qed


subsection \<open>The payload of a collection edge\<close>

text \<open>
  Claim C6. When \<open>get\<close> yields a collection edge, \<open>getData\<close> returns the payload
  \<open>legacyGetCollectionRelationshipData\<close> builds from it; that payload has a data key
  exactly when \<open>hasReceivedData\<close> is true, and the data then is the local ordered
  sequence of the edge.
\<close>

theorem getData_collection:
  assumes "get env g ident propertyName = Inr (g1, r)"
      and "edgeAt g1 r = Some (Collection c)"
  shows "getData env g ident propertyName = Inr (g1, legacyGetCollectionRelationshipData c)
       \<and> (payloadData (legacyGetCollectionRelationshipData c) \<noteq> None \<longleftrightarrow> hasReceivedData (state c))
       \<and> (hasReceivedData (state c) \<longrightarrow>
            payloadData (legacyGetCollectionRelationshipData c) = Some (CollectionData (localState c)))"
  using assms
  by (simp add: getData_def legacyGetCollectionRelationshipData_def Let_def split: option.splits)

theorem getData_collection_witness:
  "get exampleCollaborators exampleGraph post1 ''comments'' = Inr (exampleGraph, 0)
   \<and> edgeAt exampleGraph 0 = Some (Collection exampleComments)
   \<and> hasReceivedData (state exampleComments)
   \<and> getData exampleCollaborators exampleGraph post1 ''comments''
       = Inr (exampleGraph, \<lparr> payloadData = Some (CollectionData [comment1, comment2]),
                               payloadLinks = None, payloadMeta = None \<rparr>)"
proof -
  have a: "get exampleCollaborators exampleGraph post1 ''comments'' = Inr (exampleGraph, 0)"
    by code_simp
  have b: "edgeAt exampleGraph 0 = Some (Collection exampleComments)" by code_simp
  have c: "legacyGetCollectionRelationshipData exampleComments
             = \<lparr> payloadData = Some (CollectionData [comment1, comment2]),
                 payloadLinks = None, payloadMeta = None \<rparr>" by code_simp
  have d: "hasReceivedData (state exampleComments)" by code_simp
  from getData_collection [OF a b] show ?thesis using a b c d by simp
qed

subsection \<open>Graph.remove\<close>

lemma has_deleted: "\<not> has (g\<lparr> identifiers := AList.delete ident (identifiers g) \<rparr>) ident f"
  by (simp add: has_def delete_conv')














subsection \<open>Graph.destroy\<close>

lemma has_no_identifiers: "identifiers g = [] \<Longrightarrow> \<not> has g ident f"
  by (simp add: has_def)

text \<open>
  Claim C9, as amended. When the store of the graph can be reached, \<open>destroy\<close> returns:
  the registry has no entry left under the store wrapper of the graph nor under the store
  behind it, the identifier table is empty, the store is null and \<open>isDestroyed\<close> is
  true. No method reads \<open>isDestroyed\<close>: on the destroyed graph \<open>has\<close> is false for every
  identifier and field, and \<open>remove\<close> returns normally (when no removal was in
  progress).
\<close>

theorem destroy_clears:
  assumes "getStore env (store g) = Inr s"
  shows "\<exists>Graphs' g'. destroy env Graphs g = Inr (Graphs', g')
           \<and> map_of Graphs' (store g) = None \<and> map_of Graphs' s = None
           \<and> identifiers g' = [] \<and> store g' = None \<and> isDestroyed g'
           \<and> (\<forall>ident propertyName. \<not> has g' ident propertyName)
           \<and> (removing g = None \<longrightarrow> (\<forall>ident. remove env g' ident = Inr g'))"
proof -
  let ?G = "AList.delete s (AList.delete (store g) Graphs)"
  let ?g = "g\<lparr> identifiers := [], store := None, isDestroyed := True \<rparr>"
  have d: "destroy env Graphs g = Inr (?G, ?g)"
    using assms by (simp add: destroy_def)
  have r: "removing g = None \<longrightarrow> (\<forall>ident. remove env ?g ident = Inr ?g)"
    by (simp add: remove_def unload_def)
  have k: "map_of ?G (store g) = None" "map_of ?G s = None"
    by (simp_all add: delete_conv')
  show ?thesis using d r k by (simp add: has_def)
qed

theorem destroy_clears_witness:
  "getStore exampleCollaborators (store exampleGraph) = Inr (Some 8)
   \<and> destroy exampleCollaborators [(Some 7, ''graph''), (Some 8, ''graph''), (Some 9, ''other'')] exampleGraph
       = Inr ([(Some 9, ''other'')], exampleGraph\<lparr> identifiers := [], store := None, isDestroyed := True \<rparr>)"
proof -
  have a: "getStore exampleCollaborators (store exampleGraph) = Inr (Some 8)" by code_simp
  have b: "destroy exampleCollaborators [(Some 7, ''graph''), (Some 8, ''graph''), (Some 9, ''other'')] exampleGraph
       = Inr ([(Some 9, ''other'')], exampleGraph\<lparr> identifiers := [], store := None, isDestroyed := True \<rparr>)"
    by code_simp
  from destroy_clears [OF a, of "[(Some 7, ''graph''), (Some 8, ''graph''), (Some 9, ''other'')]"]
  show ?thesis using a b by simp
qed

text \<open>
  Claim C9 as stated fails: on a destroyed graph of the instance, \<open>remove\<close> and
  \<open>flushLocalQueue\<close> return normally and \<open>has\<close> answers false; none of them raises.
\<close>

theorem destroyed_graph_call_counterexample:
  "destroy exampleCollaborators [(Some 7, ''graph'')] exampleGraph
     = Inr ([], exampleGraph\<lparr> identifiers := [], store := None, isDestroyed := True \<rparr>)
   \<and> isDestroyed (exampleGraph\<lparr> identifiers := [], store := None, isDestroyed := True \<rparr>)
   \<and> remove exampleCollaborators (exampleGraph\<lparr> identifiers := [], store := None, isDestroyed := True \<rparr>) post1
       = Inr (exampleGraph\<lparr> identifiers := [], store := None, isDestroyed := True \<rparr>)
   \<and> flushLocalQueue exampleCollaborators (exampleGraph\<lparr> identifiers := [], store := None, isDestroyed := True \<rparr>)
       = Inr (exampleGraph\<lparr> identifiers := [], store := None, isDestroyed := True \<rparr>)
   \<and> has (exampleGraph\<lparr> identifiers := [], store := None, isDestroyed := True \<rparr>) post1 ''comments'' = False"
  by code_simp

subsection \<open>The remote flush\<close>

lemma withNode_frame:
  "pushedUpdates (withNode g ident) = pushedUpdates g"
  "scheduled (withNode g ident) = scheduled g"
  "willSyncRemote (withNode g ident) = willSyncRemote g"
  "willSyncLocal (withNode g ident) = willSyncLocal g"
  "transaction (withNode g ident) = transaction g"
  "removing (withNode g ident) = removing g"
  "store (withNode g ident) = store g"
  "isDestroyed (withNode g ident) = isDestroyed g"
  "updatedRelationships (withNode g ident) = updatedRelationships g"
  "edges (withNode g ident) = edges g"
  by (simp_all add: withNode_def split: option.splits)

lemma get_frame:
  assumes "get env g ident propertyName = Inr (g1, r)"
  shows "pushedUpdates g1 = pushedUpdates g"
    and "scheduled g1 = scheduled g"
    and "willSyncRemote g1 = willSyncRemote g"
    and "willSyncLocal g1 = willSyncLocal g"
    and "transaction g1 = transaction g"
    and "removing g1 = removing g"
    and "store g1 = store g"
    and "isDestroyed g1 = isDestroyed g"
    and "updatedRelationships g1 = updatedRelationships g"
  using get_cases [OF assms] by (auto simp: setNode_def withNode_frame)

lemma schedule_Inr:
  "schedule env g queue cb = Inr g' \<Longrightarrow> g' = g\<lparr> scheduled := scheduled g @ [(queue, cb)] \<rparr>"
  by (auto simp: schedule_def bindE_eq_Inr split: option.splits)

lemma updateAll_append:
  "updateAll env (xs @ ys) g = bindE (updateAll env xs g) (updateAll env ys)"
proof (induction xs arbitrary: g)
  case Nil
  show ?case by simp
next
  case (Cons x xs)
  show ?case
  proof (cases "update env g x True")
    case (Inl e)
    then show ?thesis by simp
  next
    case (Inr g1)
    then show ?thesis using Cons.IH [of g1] by simp
  qed
qed

lemma bindE_assoc: "bindE (bindE m f) h = bindE m (\<lambda>x. bindE (f x) h)"
  by (cases m) simp_all

text \<open>
  Claim C2. A remote flush whose flag is set empties the three buckets, opens a
  transaction and clears the flag, then applies the queued deletions, the queued hasMany
  operations and the queued belongsTo operations, in this order, and finalizes; it stops
  at the first operation that raises. With one operation \<open>d\<close>, \<open>h\<close>, \<open>b\<close> in each
  bucket, \<open>d\<close> is applied first, \<open>h\<close> to the graph \<open>d\<close> left and \<open>b\<close> to the graph
  \<open>h\<close> left. The order of arrival plays no part: \<open>push\<close> appends the operation to one
  bucket (the deletions exactly for a \<open>deleteRecord\<close>) and leaves the other two alone.
\<close>

theorem flush_applies_buckets_in_order:
  "flushRemoteQueue env g =
     (if willSyncRemote g
      then bindE (updateAll env (deletions (pushedUpdates g) @ hasMany (pushedUpdates g)
                                   @ belongsTo (pushedUpdates g))
                    (g\<lparr> transaction := Some [], willSyncRemote := False,
                        pushedUpdates := \<lparr> belongsTo = [], hasMany = [], deletions = [] \<rparr> \<rparr>))
             (\<lambda>g'. Inr (finalize g'))
      else Inr g)
   \<and> (willSyncRemote g \<and> deletions (pushedUpdates g) = [d] \<and> hasMany (pushedUpdates g) = [h]
        \<and> belongsTo (pushedUpdates g) = [b] \<longrightarrow>
        flushRemoteQueue env g =
          bindE (update env (g\<lparr> transaction := Some [], willSyncRemote := False,
                                pushedUpdates := \<lparr> belongsTo = [], hasMany = [], deletions = [] \<rparr> \<rparr>) d True)
            (\<lambda>g1. bindE (update env g1 h True)
            (\<lambda>g2. bindE (update env g2 b True)
            (\<lambda>g3. Inr (finalize g3)))))
   \<and> (push env g operation = Inr g' \<longrightarrow>
        (\<exists>ds hs bs. deletions (pushedUpdates g') = deletions (pushedUpdates g) @ ds
                   \<and> hasMany (pushedUpdates g') = hasMany (pushedUpdates g) @ hs
                   \<and> belongsTo (pushedUpdates g') = belongsTo (pushedUpdates g) @ bs
                   \<and> ds @ hs @ bs = [operation]
                   \<and> (ds = [operation] \<longleftrightarrow> op operation = ''deleteRecord'')))"
proof (intro conjI impI)
  show eq: "flushRemoteQueue env g =
     (if willSyncRemote g
      then bindE (updateAll env (deletions (pushedUpdates g) @ hasMany (pushedUpdates g)
                                   @ belongsTo (pushedUpdates g))
                    (g\<lparr> transaction := Some [], willSyncRemote := False,
                        pushedUpdates := \<lparr> belongsTo = [], hasMany = [], deletions = [] \<rparr> \<rparr>))
             (\<lambda>g'. Inr (finalize g'))
      else Inr g)"
    by (simp add: flushRemoteQueue_def Let_def updateAll_append bindE_assoc)
  show "flushRemoteQueue env g =
          bindE (update env (g\<lparr> transaction := Some [], willSyncRemote := False,
                                pushedUpdates := \<lparr> belongsTo = [], hasMany = [], deletions = [] \<rparr> \<rparr>) d True)
            (\<lambda>g1. bindE (update env g1 h True)
            (\<lambda>g2. bindE (update env g2 b True)
            (\<lambda>g3. Inr (finalize g3))))"
    if "willSyncRemote g \<and> deletions (pushedUpdates g) = [d] \<and> hasMany (pushedUpdates g) = [h]
        \<and> belongsTo (pushedUpdates g) = [b]"
    using that by (simp add: flushRemoteQueue_def Let_def bindE_assoc)
  show "\<exists>ds hs bs. deletions (pushedUpdates g') = deletions (pushedUpdates g) @ ds
                   \<and> hasMany (pushedUpdates g') = hasMany (pushedUpdates g) @ hs
                   \<and> belongsTo (pushedUpdates g') = belongsTo (pushedUpdates g) @ bs
                   \<and> ds @ hs @ bs = [operation]
                   \<and> (ds = [operation] \<longleftrightarrow> op operation = ''deleteRecord'')"
    if p: "push env g operation = Inr g'"
  proof -
    from p obtain g2 where
      g2: "(if op operation = ''deleteRecord'' then
          Inr (g\<lparr> pushedUpdates := (pushedUpdates g)
                 \<lparr> deletions := deletions (pushedUpdates g) @ [operation] \<rparr> \<rparr>)
        else if op operation = ''replaceRelatedRecord'' then
          Inr (g\<lparr> pushedUpdates := (pushedUpdates g)
                 \<lparr> belongsTo := belongsTo (pushedUpdates g) @ [operation] \<rparr> \<rparr>)
        else
          bindE (get env g (opRecord operation) (field operation)) (\<lambda>(g1, rel).
            case edgeAt g1 rel of
              None \<Rightarrow> Inl TypeError
            | Some e \<Rightarrow>
                if isImplicit e then Inl AssertionError
                else (case kind (definitionOf e) of
                        BelongsTo \<Rightarrow>
                          Inr (g1\<lparr> pushedUpdates := (pushedUpdates g1)
                                 \<lparr> belongsTo := belongsTo (pushedUpdates g1) @ [operation] \<rparr> \<rparr>)
                      | HasMany \<Rightarrow>
                          Inr (g1\<lparr> pushedUpdates := (pushedUpdates g1)
                                 \<lparr> hasMany := hasMany (pushedUpdates g1) @ [operation] \<rparr> \<rparr>)
                      | ImplicitKind \<Rightarrow> Inl TypeError))) = Inr g2"
      and g': "(if \<not> willSyncRemote g2
          then schedule env (g2\<lparr> willSyncRemote := True \<rparr>) ''coalesce'' FlushRemoteQueue
          else Inr g2) = Inr g'"
      unfolding push_def bindE_eq_Inr by blast
    have same: "pushedUpdates g' = pushedUpdates g2"
      using g' by (auto split: if_splits dest!: schedule_Inr)
    show ?thesis
    proof (cases "op operation = ''deleteRecord''")
      case True
      with g2 same show ?thesis by auto
    next
      case False
      note nd = this
      show ?thesis
      proof (cases "op operation = ''replaceRelatedRecord''")
        case True
        with g2 same nd show ?thesis by auto
      next
        case False
        with g2 nd obtain g1 rel e where
          get: "get env g (opRecord operation) (field operation) = Inr (g1, rel)"
          and r: "(case kind (definitionOf e) of
                        BelongsTo \<Rightarrow>
                          Inr (g1\<lparr> pushedUpdates := (pushedUpdates g1)
                                 \<lparr> belongsTo := belongsTo (pushedUpdates g1) @ [operation] \<rparr> \<rparr>)
                      | HasMany \<Rightarrow>
                          Inr (g1\<lparr> pushedUpdates := (pushedUpdates g1)
                                 \<lparr> hasMany := hasMany (pushedUpdates g1) @ [operation] \<rparr> \<rparr>)
                      | ImplicitKind \<Rightarrow> Inl TypeError) = Inr g2"
          by (auto simp: bindE_eq_Inr split: option.splits if_splits)
        have pu: "pushedUpdates g1 = pushedUpdates g" using get by (rule get_frame)
        from r show ?thesis
        proof (cases "kind (definitionOf e)")
          case BelongsTo
          with r have "g2 = g1\<lparr> pushedUpdates := (pushedUpdates g1)
                                 \<lparr> belongsTo := belongsTo (pushedUpdates g1) @ [operation] \<rparr> \<rparr>" by simp
          with same pu nd show ?thesis by auto
        next
          case HasMany
          with r have "g2 = g1\<lparr> pushedUpdates := (pushedUpdates g1)
                                 \<lparr> hasMany := hasMany (pushedUpdates g1) @ [operation] \<rparr> \<rparr>" by simp
          with same pu nd show ?thesis by auto
        next
          case ImplicitKind
          with r show ?thesis by simp
        qed
      qed
    qed
  qed
qed

theorem flush_applies_buckets_in_order_witness:
  "push exampleCollaborators exampleGraph replaceAuthor
     = Inr (exampleGraph\<lparr> willSyncRemote := True,
              pushedUpdates := \<lparr> belongsTo = [replaceAuthor], hasMany = [], deletions = [] \<rparr>,
              scheduled := [(''coalesce'', FlushRemoteQueue)] \<rparr>)
   \<and> willSyncRemote (exampleGraph\<lparr> willSyncRemote := True,
              pushedUpdates := \<lparr> belongsTo = [replaceAuthor], hasMany = [replaceComments],
                                 deletions = [deleteComment1] \<rparr> \<rparr>)
   \<and> flushRemoteQueue exampleCollaborators
         (exampleGraph\<lparr> willSyncRemote := True,
              pushedUpdates := \<lparr> belongsTo = [replaceAuthor], hasMany = [replaceComments],
                                 deletions = [deleteComment1] \<rparr> \<rparr>)
       = bindE (update exampleCollaborators (exampleGraph\<lparr> transaction := Some [] \<rparr>) deleteComment1 True)
           (\<lambda>g1. bindE (update exampleCollaborators g1 replaceComments True)
           (\<lambda>g2. bindE (update exampleCollaborators g2 replaceAuthor True)
           (\<lambda>g3. Inr (finalize g3))))"
proof -
  let ?g = "exampleGraph\<lparr> willSyncRemote := True,
              pushedUpdates := \<lparr> belongsTo = [replaceAuthor], hasMany = [replaceComments],
                                 deletions = [deleteComment1] \<rparr> \<rparr>"
  have a: "push exampleCollaborators exampleGraph replaceAuthor
     = Inr (exampleGraph\<lparr> willSyncRemote := True,
              pushedUpdates := \<lparr> belongsTo = [replaceAuthor], hasMany = [], deletions = [] \<rparr>,
              scheduled := [(''coalesce'', FlushRemoteQueue)] \<rparr>)" by code_simp
  have b: "willSyncRemote ?g \<and> deletions (pushedUpdates ?g) = [deleteComment1]
           \<and> hasMany (pushedUpdates ?g) = [replaceComments]
           \<and> belongsTo (pushedUpdates ?g) = [replaceAuthor]" by simp
  have c: "?g\<lparr> transaction := Some [], willSyncRemote := False,
               pushedUpdates := \<lparr> belongsTo = [], hasMany = [], deletions = [] \<rparr> \<rparr>
           = exampleGraph\<lparr> transaction := Some [] \<rparr>"
    by (simp add: exampleGraph_def newGraph_def)
  from flush_applies_buckets_in_order
         [of exampleCollaborators ?g deleteComment1 replaceComments replaceAuthor]
  have "willSyncRemote ?g \<and> deletions (pushedUpdates ?g) = [deleteComment1]
           \<and> hasMany (pushedUpdates ?g) = [replaceComments]
           \<and> belongsTo (pushedUpdates ?g) = [replaceAuthor] \<longrightarrow>
        flushRemoteQueue exampleCollaborators ?g =
          bindE (update exampleCollaborators
                   (?g\<lparr> transaction := Some [], willSyncRemote := False,
                        pushedUpdates := \<lparr> belongsTo = [], hasMany = [], deletions = [] \<rparr> \<rparr>)
                   deleteComment1 True)
            (\<lambda>g1. bindE (update exampleCollaborators g1 replaceComments True)
            (\<lambda>g2. bindE (update exampleCollaborators g2 replaceAuthor True)
            (\<lambda>g3. Inr (finalize g3))))"
    by (rule conjunct1 [OF conjunct2])
  with b have "flushRemoteQueue exampleCollaborators ?g =
          bindE (update exampleCollaborators
                   (?g\<lparr> transaction := Some [], willSyncRemote := False,
                        pushedUpdates := \<lparr> belongsTo = [], hasMany = [], deletions = [] \<rparr> \<rparr>)
                   deleteComment1 True)
            (\<lambda>g1. bindE (update exampleCollaborators g1 replaceComments True)
            (\<lambda>g2. bindE (update exampleCollaborators g2 replaceAuthor True)
            (\<lambda>g3. Inr (finalize g3))))"
    by (rule rev_mp)
  then have "flushRemoteQueue exampleCollaborators ?g =
          bindE (update exampleCollaborators (exampleGraph\<lparr> transaction := Some [] \<rparr>)
                   deleteComment1 True)
            (\<lambda>g1. bindE (update exampleCollaborators g1 replaceComments True)
            (\<lambda>g2. bindE (update exampleCollaborators g2 replaceAuthor True)
            (\<lambda>g3. Inr (finalize g3))))"
    by (simp only: c)
  with a show ?thesis by simp
qed

subsection \<open>Properties kept by Graph.update\<close>

lemma preservesD: "preserves P f \<Longrightarrow> P g \<Longrightarrow> f g = Inr g' \<Longrightarrow> P g'"
  unfolding preserves_def by blast

lemma collaboratorsPreserveD:
  assumes "collaboratorsPreserve P env"
  shows "preserves P (\<lambda>g. notifyChange env g ident k)"
    and "preserves P (\<lambda>g. removeFromInverse env g ident k v isRemote)"
    and "preserves P (\<lambda>g. destroyRelationship env g rel s)"
    and "preserves P (\<lambda>g. removeCompletelyFromInverse env g rel)"
    and "preserves P (\<lambda>g. mergeIdentifier env g operation d)"
    and "preserves P (\<lambda>g. assertValidRelationshipPayload env g operation)"
    and "preserves P (\<lambda>g. updateRelationshipOperation env g operation)"
    and "preserves P (\<lambda>g. replaceRelatedRecord env g operation isRemote)"
    and "preserves P (\<lambda>g. addToRelatedRecords env g operation isRemote)"
    and "preserves P (\<lambda>g. replaceRelatedRecords env g operation isRemote)"
    and "preserves P (\<lambda>g. syncRemoteToLocal env g rel)"
  using assms unfolding collaboratorsPreserve_def by simp_all

lemma get_preserves:
  assumes own: "keptByOwnWrites env P" and P: "P g"
      and get: "get env g ident propertyName = Inr (g1, r)"
  shows "P g1"
proof -
  have w: "P (withNode g ident)" using own P unfolding keptByOwnWrites_def by blast
  from get_cases [OF get] show ?thesis
  proof (elim disjE exE conjE)
    fix d assume "g1 = g" with P show ?thesis by simp
  next
    fix d m
    assume g1: "g1 = setNode ((withNode g ident)\<lparr> edges := edges g @ [newEdge env m ident] \<rparr>) d
                      (AList.update propertyName (Some r) (nodeAt (withNode g ident) d))"
    have "P ((withNode g ident)\<lparr> edges := edges (withNode g ident) @ [newEdge env m ident] \<rparr>)"
      using own w unfolding keptByOwnWrites_def by blast
    then have "P ((withNode g ident)\<lparr> edges := edges g @ [newEdge env m ident] \<rparr>)"
      by (simp add: withNode_frame)
    then show ?thesis using own unfolding g1 keptByOwnWrites_def by blast
  qed
qed

lemma removeRelatedRecord_preserves:
  assumes own: "keptByOwnWrites env P"
      and inv: "\<And>ident k v isRemote. preserves P (\<lambda>g. removeFromInverse env g ident k v isRemote)"
      and P: "P g"
      and rm: "removeRelatedRecord env g rel record val isRemote = Inr g'"
  shows "P g'"
proof -
  from rm obtain v c where val: "val = Some v" and c: "edgeAt g rel = Some (Collection c)"
    by (auto simp: removeRelatedRecord_def split: option.splits RelationshipEdge.splits)
  show ?thesis
  proof (cases "v \<in> localMembers c")
    case False
    with rm val c P show ?thesis by (simp add: removeRelatedRecord_def)
  next
    case True
    let ?g = "setEdge g rel (Collection (c\<lparr> localMembers := localMembers c - {v},
                                            localState := remove1 v (localState c) \<rparr>))"
    from rm val c True have inl: "v \<in> set (localState c)"
      and r: "removeFromInverse env ?g v (inverseKey (edgeDefinition c)) record isRemote = Inr g'"
      by (auto simp: removeRelatedRecord_def split: if_splits)
    have "P ?g" using own P c True inl unfolding keptByOwnWrites_def by blast
    with inv r show ?thesis by (blast dest: preservesD)
  qed
qed

lemma removeRelatedRecordsLoop_preserves:
  assumes own: "keptByOwnWrites env P"
      and inv: "\<And>ident k v isRemote. preserves P (\<lambda>g. removeFromInverse env g ident k v isRemote)"
  shows "P g \<Longrightarrow> removeRelatedRecordsLoop env rel record isRemote vs g = Inr g' \<Longrightarrow> P g'"
proof (induction vs arbitrary: g)
  case Nil
  then show ?case by simp
next
  case (Cons v vs)
  from Cons.prems(2) obtain g1 where
    a: "removeRelatedRecord env g rel record (Some v) isRemote = Inr g1"
    and b: "removeRelatedRecordsLoop env rel record isRemote vs g1 = Inr g'"
    by (auto simp: bindE_eq_Inr)
  have "P g1" using own inv Cons.prems(1) a by (rule removeRelatedRecord_preserves)
  then show ?case using b by (rule Cons.IH)
qed

lemma removeFromRelatedRecords_preserves:
  assumes own: "keptByOwnWrites env P"
      and inv: "\<And>ident k v isRemote. preserves P (\<lambda>g. removeFromInverse env g ident k v isRemote)"
      and nfy: "\<And>ident k. preserves P (\<lambda>g. notifyChange env g ident k)"
      and P: "P g"
      and rm: "removeFromRelatedRecords env g operation isRemote = Inr g'"
  shows "P g'"
proof -
  from rm obtain g1 rel where
    get: "get env g (opRecord operation) (field operation) = Inr (g1, rel)"
    and rest: "(case edgeAt g1 rel of
         Some (Collection c) \<Rightarrow>
           bindE
             (case opValue operation of
                Many vs \<Rightarrow> removeRelatedRecordsLoop env rel (opRecord operation) isRemote vs g1
              | One v \<Rightarrow> removeRelatedRecord env g1 rel (opRecord operation) (Some v) isRemote
              | Null \<Rightarrow> removeRelatedRecord env g1 rel (opRecord operation) None isRemote)
             (\<lambda>g2.
                case edgeAt g2 rel of
                  Some (Collection c2) \<Rightarrow>
                    notifyChange env g2 (edgeIdentifier c2) (key (edgeDefinition c2))
                | _ \<Rightarrow> Inl TypeError)
       | _ \<Rightarrow> Inl AssertionError) = Inr g'"
    by (auto simp: removeFromRelatedRecords_def bindE_eq_Inr)
  from rest obtain c where c: "edgeAt g1 rel = Some (Collection c)"
    by (auto split: option.splits RelationshipEdge.splits)
  from rest c obtain g2 where
    loop: "(case opValue operation of
                Many vs \<Rightarrow> removeRelatedRecordsLoop env rel (opRecord operation) isRemote vs g1
              | One v \<Rightarrow> removeRelatedRecord env g1 rel (opRecord operation) (Some v) isRemote
              | Null \<Rightarrow> removeRelatedRecord env g1 rel (opRecord operation) None isRemote) = Inr g2"
    and n': "(case edgeAt g2 rel of
                  Some (Collection c2) \<Rightarrow>
                    notifyChange env g2 (edgeIdentifier c2) (key (edgeDefinition c2))
                | _ \<Rightarrow> Inl TypeError) = Inr g'"
    by (auto simp: bindE_eq_Inr)
  from n' obtain c2 :: CollectionRelationship where
    n: "notifyChange env g2 (edgeIdentifier c2) (key (edgeDefinition c2)) = Inr g'"
    by (auto split: option.splits RelationshipEdge.splits)
  have P1: "P g1" using own P get by (rule get_preserves)
  have "P g2"
  proof (cases "opValue operation")
    case Null
    with loop show ?thesis by (simp add: removeRelatedRecord_def)
  next
    case (One v)
    with loop have "removeRelatedRecord env g1 rel (opRecord operation) (Some v) isRemote = Inr g2"
      by simp
    with own inv P1 show ?thesis by (rule removeRelatedRecord_preserves)
  next
    case (Many vs)
    with loop have "removeRelatedRecordsLoop env rel (opRecord operation) isRemote vs g1 = Inr g2"
      by simp
    with removeRelatedRecordsLoop_preserves [OF own inv P1] show ?thesis by blast
  qed
  with nfy n show ?thesis by (blast dest: preservesD)
qed

lemma deleteKeys_preserves:
  assumes own: "keptByOwnWrites env P"
      and rc: "\<And>rel. preserves P (\<lambda>g. removeCompletelyFromInverse env g rel)"
  shows "P g \<Longrightarrow> deleteKeys env d ks g = Inr g' \<Longrightarrow> P g'"
proof (induction ks arbitrary: g)
  case Nil
  then show ?case by simp
next
  case (Cons k ks)
  show ?case
  proof (cases "dictGet (nodeAt g d) k")
    case None
    with Cons show ?thesis by simp
  next
    case (Some rel)
    with Cons.prems(2) obtain g1 where
      a: "removeCompletelyFromInverse env (setNode g d (AList.update k None (nodeAt g d))) rel = Inr g1"
      and b: "deleteKeys env d ks g1 = Inr g'"
      by (auto simp: bindE_eq_Inr)
    have "P (setNode g d (AList.update k None (nodeAt g d)))"
      using own Cons.prems(1) unfolding keptByOwnWrites_def by blast
    with rc a have "P g1" by (blast dest: preservesD)
    then show ?thesis using b by (rule Cons.IH)
  qed
qed

lemma update_preserves:
  assumes own: "keptByOwnWrites env P"
      and col: "collaboratorsPreserve P env"
      and P: "P g"
      and up: "update env g operation isRemote = Inr g'"
  shows "P g'"
proof -
  from up obtain g1 where
    pre: "(if op operation = ''deleteRecord'' \<or> op operation = ''mergeIdentifiers'' then Inr g
        else
          bindE (get env g (opRecord operation) (field operation)) (\<lambda>(g1, rel).
            case edgeAt g1 rel of
              None \<Rightarrow> Inl TypeError
            | Some e \<Rightarrow> if isImplicit e then Inl AssertionError else Inr g1)) = Inr g1"
    and body: "(if op operation = ''mergeIdentifiers'' then
            (case map_of (identifiers g1) (opRecord operation) of
               Some d \<Rightarrow> mergeIdentifier env g1 operation d
             | None \<Rightarrow> Inr g1)
          else if op operation = ''updateRelationship'' then
            (if \<not> isRemote then Inl AssertionError
             else bindE (assertValidRelationshipPayload env g1 operation) (\<lambda>g2.
                    updateRelationshipOperation env g2 operation))
          else if op operation = ''deleteRecord'' then
            (if \<not> isRemote then Inl AssertionError
             else
               (case map_of (identifiers g1) (opRecord operation) of
                  Some d \<Rightarrow>
                    bindE (deleteKeys env d (map fst (nodeAt g1 d)) g1) (\<lambda>g2.
                      Inr (g2\<lparr> identifiers := AList.delete (opRecord operation) (identifiers g2) \<rparr>))
                | None \<Rightarrow> Inr g1))
          else if op operation = ''replaceRelatedRecord'' then
            replaceRelatedRecord env g1 operation isRemote
          else if op operation = ''addToRelatedRecords'' then
            addToRelatedRecords env g1 operation isRemote
          else if op operation = ''removeFromRelatedRecords'' then
            removeFromRelatedRecords env g1 operation isRemote
          else if op operation = ''replaceRelatedRecords'' then
            replaceRelatedRecords env g1 operation isRemote
          else Inl AssertionError) = Inr g'"
    unfolding update_def bindE_eq_Inr by blast
  have P1: "P g1"
  proof (cases "op operation = ''deleteRecord'' \<or> op operation = ''mergeIdentifiers''")
    case True
    with pre P show ?thesis by auto
  next
    case False
    with pre obtain rel where "get env g (opRecord operation) (field operation) = Inr (g1, rel)"
      by (auto simp: bindE_eq_Inr split: option.splits if_splits)
    with own P show ?thesis by (rule get_preserves)
  qed
  note c = collaboratorsPreserveD [OF col]
  consider (merge) "op operation = ''mergeIdentifiers''"
    | (upd) "op operation = ''updateRelationship''"
    | (del) "op operation = ''deleteRecord''"
    | (rep1) "op operation = ''replaceRelatedRecord''"
    | (add) "op operation = ''addToRelatedRecords''"
    | (rem) "op operation = ''removeFromRelatedRecords''"
    | (rep) "op operation = ''replaceRelatedRecords''"
    | (other) "op operation \<notin> {''mergeIdentifiers'', ''updateRelationship'', ''deleteRecord'',
         ''replaceRelatedRecord'', ''addToRelatedRecords'', ''removeFromRelatedRecords'',
         ''replaceRelatedRecords''}"
    by blast
  then show ?thesis
  proof cases
    case merge
    show ?thesis
    proof (cases "map_of (identifiers g1) (opRecord operation)")
      case None
      with merge body P1 show ?thesis by simp
    next
      case (Some d)
      with merge body have "mergeIdentifier env g1 operation d = Inr g'" by simp
      with c(5) P1 show ?thesis by (rule preservesD)
    qed
  next
    case upd
    with body obtain g2 where "assertValidRelationshipPayload env g1 operation = Inr g2"
      "updateRelationshipOperation env g2 operation = Inr g'"
      by (auto simp: bindE_eq_Inr split: if_splits)
    then show ?thesis using P1 c(6,7) by (blast dest: preservesD)
  next
    case del
    show ?thesis
    proof (cases "map_of (identifiers g1) (opRecord operation)")
      case None
      with del body P1 show ?thesis by (auto split: if_splits)
    next
      case (Some d)
      with del body obtain g2 where dk: "deleteKeys env d (map fst (nodeAt g1 d)) g1 = Inr g2"
        and g': "g' = g2\<lparr> identifiers := AList.delete (opRecord operation) (identifiers g2) \<rparr>"
        by (auto simp: bindE_eq_Inr split: if_splits)
      have "P g2" using own c(4) P1 dk by (rule deleteKeys_preserves)
      then show ?thesis using own unfolding g' keptByOwnWrites_def by blast
    qed
  next
    case rep1
    with body have "replaceRelatedRecord env g1 operation isRemote = Inr g'" by simp
    with c(8) P1 show ?thesis by (rule preservesD)
  next
    case add
    with body have "addToRelatedRecords env g1 operation isRemote = Inr g'" by simp
    with c(9) P1 show ?thesis by (rule preservesD)
  next
    case rem
    with body have "removeFromRelatedRecords env g1 operation isRemote = Inr g'" by simp
    with own c(2) c(1) P1 show ?thesis by (rule removeFromRelatedRecords_preserves)
  next
    case rep
    with body have "replaceRelatedRecords env g1 operation isRemote = Inr g'" by simp
    with c(10) P1 show ?thesis by (rule preservesD)
  next
    case other
    with body show ?thesis by simp
  qed
qed

lemma updateAll_preserves:
  assumes own: "keptByOwnWrites env P" and col: "collaboratorsPreserve P env"
  shows "P g \<Longrightarrow> updateAll env ops g = Inr g' \<Longrightarrow> P g'"
proof (induction ops arbitrary: g)
  case Nil
  then show ?case by simp
next
  case (Cons x xs)
  from Cons.prems(2) obtain g1 where a: "update env g x True = Inr g1"
    and b: "updateAll env xs g1 = Inr g'"
    by (auto simp: bindE_eq_Inr)
  have "P g1" using own col Cons.prems(1) a by (rule update_preserves)
  then show ?case using b by (rule Cons.IH)
qed

lemma syncAll_preserves:
  assumes col: "collaboratorsPreserve P env"
  shows "P g \<Longrightarrow> syncAll env rels g = Inr g' \<Longrightarrow> P g'"
proof (induction rels arbitrary: g)
  case Nil
  then show ?case by simp
next
  case (Cons x xs)
  from Cons.prems(2) obtain g1 where a: "syncRemoteToLocal env g x = Inr g1"
    and b: "syncAll env xs g1 = Inr g'"
    by (auto simp: bindE_eq_Inr)
  have "P g1" using collaboratorsPreserveD(11) [OF col] Cons.prems(1) a by (rule preservesD)
  then show ?case using b by (rule Cons.IH)
qed

subsection \<open>The transaction of a remote flush\<close>

lemma transactionRefOf_set [simp]:
  "transactionRefOf (setTransactionRef n e) = (if isImplicit e then 0 else n)"
  by (cases e) simp_all

lemma resetTransactionRef_frame [simp]:
  "transaction (resetTransactionRef v g) = transaction g"
  "length (edges (resetTransactionRef v g)) = length (edges g)"
  by (simp_all add: resetTransactionRef_def setEdge_def split: option.splits)

lemma resetTransactionRef_nth:
  "r < length (edges g) \<Longrightarrow>
     transactionRefOf (edges (resetTransactionRef v g) ! r)
       = (if r = v then 0 else transactionRefOf (edges g ! r))"
  by (auto simp: resetTransactionRef_def setEdge_def edgeAt_def nth_list_update
           split: option.splits)

lemma fold_reset_frame [simp]:
  "transaction (fold resetTransactionRef t g) = transaction g"
  "length (edges (fold resetTransactionRef t g)) = length (edges g)"
  by (induction t arbitrary: g) simp_all

lemma fold_reset_nth:
  "r < length (edges g) \<Longrightarrow>
     transactionRefOf (edges (fold resetTransactionRef t g) ! r)
       = (if r \<in> set t then 0 else transactionRefOf (edges g ! r))"
proof (induction t arbitrary: g)
  case Nil
  then show ?case by simp
next
  case (Cons v t)
  have "r < length (edges (resetTransactionRef v g))" using Cons.prems by simp
  from Cons.IH [OF this] show ?case
    using Cons.prems by (simp add: resetTransactionRef_nth)
qed

lemma finalize_settles:
  assumes "transactionInvariant g"
  shows "settled (finalize g)"
proof (cases "transaction g")
  case None
  with assms show ?thesis
    by (auto simp: finalize_def settled_def transactionInvariant_def)
next
  case (Some t)
  with assms show ?thesis
    by (auto simp: finalize_def settled_def transactionInvariant_def fold_reset_nth)
qed

lemma settled_invariant: "settled g \<longleftrightarrow> transactionInvariant g \<and> transaction g = None"
  by (auto simp: settled_def transactionInvariant_def)

lemma addToTransaction_invariant:
  assumes inv: "transactionInvariant g" and add: "addToTransaction g rel = Inr g'"
  shows "transactionInvariant g'"
    and "\<exists>t. transaction g' = Some t \<and> rel \<in> set t"
    and "\<exists>e. edgeAt g rel = Some e
           \<and> edgeAt g' rel = Some (setTransactionRef (Suc (transactionRefOf e)) e)"
proof -
  from add obtain t e where t: "transaction g = Some t" and e: "edgeAt g rel = Some e"
    and g': "g' = (setEdge g rel (setTransactionRef (Suc (transactionRefOf e)) e))
                    \<lparr> transaction := Some (setAdd rel t) \<rparr>"
    by (auto simp: addToTransaction_def split: option.splits)
  have lt: "rel < length (edges g)" using e by (simp add: edgeAt_def split: if_splits)
  show "\<exists>t. transaction g' = Some t \<and> rel \<in> set t"
    by (simp add: g' setAdd_def)
  show "\<exists>e. edgeAt g rel = Some e
           \<and> edgeAt g' rel = Some (setTransactionRef (Suc (transactionRefOf e)) e)"
    using e lt by (simp add: g' edgeAt_def setEdge_def)
  show "transactionInvariant g'"
    unfolding transactionInvariant_def
  proof (intro ballI impI)
    fix r
    assume r: "r \<in> {..<length (edges g')}" and nz: "transactionRefOf (edges g' ! r) \<noteq> 0"
    show "case transaction g' of None \<Rightarrow> False | Some t \<Rightarrow> r \<in> set t"
    proof (cases "r = rel")
      case True
      then show ?thesis by (simp add: g' setAdd_def)
    next
      case False
      with r nz have "r \<in> {..<length (edges g)}" "transactionRefOf (edges g ! r) \<noteq> 0"
        by (simp_all add: g' setEdge_def)
      with inv t have "r \<in> set t" by (auto simp: transactionInvariant_def)
      then show ?thesis by (simp add: g' setAdd_def)
    qed
  qed
qed

lemma transactionInvariant_own:
  assumes "\<And>m ident. resourceTransactionRef (createResourceRelationship env m ident) = 0"
  shows "keptByOwnWrites env transactionInvariant"
proof -
  have new: "transactionRefOf (newEdge env m ident) = 0" for m ident
    using assms by (simp add: newEdge_def createCollectionRelationship_def split: Kind.splits)
  show ?thesis
    unfolding keptByOwnWrites_def
  proof (intro conjI allI impI)
    fix g ident assume "transactionInvariant g"
    then show "transactionInvariant (withNode g ident)"
      by (simp add: transactionInvariant_def withNode_frame)
  next
    fix g d n assume "transactionInvariant g"
    then show "transactionInvariant (setNode g d n)"
      by (simp add: transactionInvariant_def setNode_def)
  next
    fix g m ident assume "transactionInvariant g"
    then show "transactionInvariant (g\<lparr> edges := edges g @ [newEdge env m ident] \<rparr>)"
      using new [of m ident]
      by (auto simp: transactionInvariant_def nth_append less_Suc_eq)
  next
    fix g rel c v
    assume "transactionInvariant g" "edgeAt g rel = Some (Collection c)"
    then show "transactionInvariant
        (setEdge g rel (Collection (c\<lparr> localMembers := localMembers c - {v},
                                         localState := remove1 v (localState c) \<rparr>)))"
      by (auto simp: transactionInvariant_def setEdge_def edgeAt_def nth_list_update
               split: if_splits)
  next
    fix g ident assume "transactionInvariant g"
    then show "transactionInvariant (g\<lparr> identifiers := AList.delete ident (identifiers g) \<rparr>)"
      by (simp add: transactionInvariant_def)
  qed
qed

lemma flushRemoteQueue_settles:
  assumes res: "\<And>m ident. resourceTransactionRef (createResourceRelationship env m ident) = 0"
      and col: "collaboratorsPreserve transactionInvariant env"
      and s: "settled g"
      and fl: "flushRemoteQueue env g = Inr g'"
  shows "settled g'"
proof (cases "willSyncRemote g")
  case False
  with fl s show ?thesis by (simp add: flushRemoteQueue_def)
next
  case True
  let ?g1 = "g\<lparr> transaction := Some [], willSyncRemote := False,
                 pushedUpdates := \<lparr> belongsTo = [], hasMany = [], deletions = [] \<rparr> \<rparr>"
  from fl True obtain g4 where
    u: "updateAll env (deletions (pushedUpdates g) @ hasMany (pushedUpdates g)
                         @ belongsTo (pushedUpdates g)) ?g1 = Inr g4"
    and g': "g' = finalize g4"
    by (auto simp: flushRemoteQueue_def Let_def updateAll_append bindE_assoc bindE_eq_Inr)
  have "transactionInvariant ?g1" using s by (simp add: settled_def transactionInvariant_def)
  with transactionInvariant_own [OF res] col have "transactionInvariant g4"
    using u by (rule updateAll_preserves)
  then show ?thesis unfolding g' by (rule finalize_settles)
qed

text \<open>
  Claim C4. A new collection edge has \<open>transactionRef\<close> 0. \<open>addToTransaction\<close> raises
  when no transaction is open; otherwise it increments the counter of the edge and puts
  the edge into the open transaction, which keeps the invariant that every edge with a
  nonzero counter is in the open transaction. \<open>finalize\<close> on a graph with the invariant
  leaves no transaction open and every counter at zero. Hence a remote flush that starts
  outside a transaction with all counters at zero ends the same way, as long as the
  imported operations keep the invariant and new resource edges start at zero.
\<close>

theorem transactionRef_invariant:
  "transactionRef (createCollectionRelationship st m ident) = 0
   \<and> (transaction g = None \<longrightarrow> addToTransaction g rel = Inl AssertionError)
   \<and> (transactionInvariant g \<and> addToTransaction g rel = Inr g' \<longrightarrow>
        transactionInvariant g'
        \<and> (\<exists>t. transaction g' = Some t \<and> rel \<in> set t)
        \<and> (\<exists>e. edgeAt g rel = Some e
              \<and> edgeAt g' rel = Some (setTransactionRef (Suc (transactionRefOf e)) e)))
   \<and> (transactionInvariant g \<longrightarrow> settled (finalize g))
   \<and> (settled g \<longleftrightarrow> transactionInvariant g \<and> transaction g = None)
   \<and> (settled g \<and> collaboratorsPreserve transactionInvariant env
        \<and> (\<forall>m ident. resourceTransactionRef (createResourceRelationship env m ident) = 0)
        \<and> flushRemoteQueue env g = Inr g' \<longrightarrow> settled g')"
proof (intro conjI impI)
  show "transactionRef (createCollectionRelationship st m ident) = 0"
    by (simp add: createCollectionRelationship_def)
  show "addToTransaction g rel = Inl AssertionError" if "transaction g = None"
    using that by (simp add: addToTransaction_def)
  show "transactionInvariant g'" if "transactionInvariant g \<and> addToTransaction g rel = Inr g'"
    using that addToTransaction_invariant(1) by blast
  show "\<exists>t. transaction g' = Some t \<and> rel \<in> set t"
    if "transactionInvariant g \<and> addToTransaction g rel = Inr g'"
    using that addToTransaction_invariant(2) by blast
  show "\<exists>e. edgeAt g rel = Some e
              \<and> edgeAt g' rel = Some (setTransactionRef (Suc (transactionRefOf e)) e)"
    if "transactionInvariant g \<and> addToTransaction g rel = Inr g'"
    using that addToTransaction_invariant(3) by blast
  show "settled (finalize g)" if "transactionInvariant g"
    using that by (rule finalize_settles)
  show "settled g \<longleftrightarrow> transactionInvariant g \<and> transaction g = None"
    by (rule settled_invariant)
  show "settled g'"
    if "settled g \<and> collaboratorsPreserve transactionInvariant env
        \<and> (\<forall>m ident. resourceTransactionRef (createResourceRelationship env m ident) = 0)
        \<and> flushRemoteQueue env g = Inr g'"
    using that flushRemoteQueue_settles [of env g g'] by blast
qed

lemma exampleRemoveFromInverse_preserves:
  assumes own: "keptByOwnWrites baseCollaborators P"
      and imp: "\<And>g rel i i'. P g \<Longrightarrow> edgeAt g rel = Some (Implicit i) \<Longrightarrow> P (setEdge g rel (Implicit i'))"
  shows "preserves P (\<lambda>g. exampleRemoveFromInverse g ident k v isRemote)"
  unfolding preserves_def
proof (intro allI impI)
  fix g g'
  assume P: "P g" and r: "exampleRemoveFromInverse g ident k v isRemote = Inr g'"
  from r obtain x where getx: "get baseCollaborators g ident k = Inr x"
    by (cases "get baseCollaborators g ident k") (simp_all add: exampleRemoveFromInverse_def)
  obtain g1 rel where x: "x = (g1, rel)" by (cases x)
  have get: "get baseCollaborators g ident k = Inr (g1, rel)" using getx x by simp
  have rest: "(case edgeAt g1 rel of
         Some (Implicit i) \<Rightarrow>
           Inr (setEdge g1 rel
                  (Implicit (i\<lparr> localMembers := localMembers i - {v},
                                 remoteMembers := (if isRemote then remoteMembers i - {v}
                                                   else remoteMembers i) \<rparr>)))
       | _ \<Rightarrow> Inr g1) = (Inr g' :: Error + Graph)"
    using r get by (simp add: exampleRemoveFromInverse_def)
  have P1: "P g1" using own P get by (rule get_preserves)
  show "P g'"
  proof (cases "edgeAt g1 rel")
    case None
    with rest P1 show ?thesis by simp
  next
    case (Some e)
    show ?thesis
    proof (cases e)
      case (Implicit i)
      with Some rest imp [OF P1] show ?thesis by auto
    next
      case (Collection c)
      with Some rest P1 show ?thesis by simp
    next
      case (Resource b)
      with Some rest P1 show ?thesis by simp
    qed
  qed
qed

lemma exampleCollaborators_preserve:
  assumes own: "keptByOwnWrites baseCollaborators P"
      and imp: "\<And>g rel i i'. P g \<Longrightarrow> edgeAt g rel = Some (Implicit i) \<Longrightarrow> P (setEdge g rel (Implicit i'))"
  shows "collaboratorsPreserve P exampleCollaborators"
  using exampleRemoveFromInverse_preserves [OF own imp]
  by (simp add: collaboratorsPreserve_def exampleCollaborators_def baseCollaborators_def preserves_def)

lemma example_resource_ref:
  "resourceTransactionRef (createResourceRelationship exampleCollaborators m ident) = 0"
  "resourceTransactionRef (createResourceRelationship baseCollaborators m ident) = 0"
  by (simp_all add: exampleCollaborators_def baseCollaborators_def exampleCreateResourceRelationship_def)

lemma example_preserves_transactionInvariant:
  "collaboratorsPreserve transactionInvariant exampleCollaborators"
proof (rule exampleCollaborators_preserve)
  show "keptByOwnWrites baseCollaborators transactionInvariant"
    by (rule transactionInvariant_own) (rule example_resource_ref)
next
  fix g rel i i'
  assume "transactionInvariant g" "edgeAt g rel = Some (Implicit i)"
  then show "transactionInvariant (setEdge g rel (Implicit i'))"
    by (auto simp: transactionInvariant_def setEdge_def edgeAt_def nth_list_update split: if_splits)
qed

theorem transactionRef_invariant_witness:
  "transaction exampleGraph = None
   \<and> addToTransaction exampleGraph 0 = Inl AssertionError
   \<and> transactionInvariant (exampleGraph\<lparr> transaction := Some [] \<rparr>)
   \<and> addToTransaction (exampleGraph\<lparr> transaction := Some [] \<rparr>) 0
       = Inr (exampleGraph\<lparr> edges := (edges exampleGraph)
                                  [0 := Collection (exampleComments\<lparr> transactionRef := 1 \<rparr>)],
                              transaction := Some [0] \<rparr>)
   \<and> transactionInvariant
         (exampleGraph\<lparr> edges := (edges exampleGraph)
                                  [0 := Collection (exampleComments\<lparr> transactionRef := 1 \<rparr>)],
                        transaction := Some [0] \<rparr>)
   \<and> finalize (exampleGraph\<lparr> edges := (edges exampleGraph)
                                  [0 := Collection (exampleComments\<lparr> transactionRef := 1 \<rparr>)],
                              transaction := Some [0] \<rparr>) = exampleGraph
   \<and> settled exampleGraph
   \<and> collaboratorsPreserve transactionInvariant exampleCollaborators
   \<and> flushRemoteQueue exampleCollaborators
         (exampleGraph\<lparr> willSyncRemote := True,
            pushedUpdates := \<lparr> belongsTo = [], hasMany = [], deletions = [deleteComment1] \<rparr> \<rparr>)
       = Inr (exampleGraph\<lparr> nodes := [[(''comments'', Some 0)], [(''post'', None)], [(''post'', Some 2)]],
                              identifiers := [(post1, 0), (comment2, 2)] \<rparr>)
   \<and> settled (exampleGraph\<lparr> nodes := [[(''comments'', Some 0)], [(''post'', None)], [(''post'', Some 2)]],
                              identifiers := [(post1, 0), (comment2, 2)] \<rparr>)"
proof -
  let ?open = "exampleGraph\<lparr> transaction := Some [] \<rparr>"
  let ?touched = "exampleGraph\<lparr> edges := (edges exampleGraph)
                                  [0 := Collection (exampleComments\<lparr> transactionRef := 1 \<rparr>)],
                              transaction := Some [0] \<rparr>"
  let ?queued = "exampleGraph\<lparr> willSyncRemote := True,
            pushedUpdates := \<lparr> belongsTo = [], hasMany = [], deletions = [deleteComment1] \<rparr> \<rparr>"
  let ?flushed = "exampleGraph\<lparr> nodes := [[(''comments'', Some 0)], [(''post'', None)], [(''post'', Some 2)]],
                              identifiers := [(post1, 0), (comment2, 2)] \<rparr>"
  have a: "transaction exampleGraph = None" by code_simp
  have b: "transactionInvariant ?open" by code_simp
  have c: "addToTransaction ?open 0 = Inr ?touched" by code_simp
  have d: "finalize ?touched = exampleGraph" by code_simp
  have e: "settled ?queued" by code_simp
  have f: "collaboratorsPreserve transactionInvariant exampleCollaborators"
    by (rule example_preserves_transactionInvariant)
  have g: "flushRemoteQueue exampleCollaborators ?queued = Inr ?flushed" by code_simp
  have h: "\<forall>m ident. resourceTransactionRef (createResourceRelationship exampleCollaborators m ident) = 0"
    by (simp add: example_resource_ref)
  have 1: "addToTransaction exampleGraph 0 = Inl AssertionError"
    using transactionRef_invariant [of _ _ _ exampleGraph 0] a by blast
  have 2: "transactionInvariant ?touched"
    using transactionRef_invariant [of _ _ _ ?open 0 ?touched] b c by blast
  have 3: "settled (finalize ?touched)"
    using transactionRef_invariant [of _ _ _ ?touched] 2 by blast
  have 4: "settled ?flushed"
    using transactionRef_invariant [of _ _ _ ?queued _ ?flushed exampleCollaborators] e f g h by blast
  from 3 have 5: "settled exampleGraph" by (simp only: d)
  show ?thesis using a b c d 1 2 4 5 f g by simp
qed

subsection \<open>One pending flush for each queue\<close>

lemma scheduleInvariant_own: "keptByOwnWrites env scheduleInvariant"
  unfolding keptByOwnWrites_def
  by (simp add: scheduleInvariant_def pending_def withNode_frame setNode_def setEdge_def)

lemma push_schedule:
  assumes "push env g operation = Inr g'"
  shows "willSyncRemote g'"
    and "scheduled g' = (if willSyncRemote g then scheduled g
                         else scheduled g @ [(''coalesce'', FlushRemoteQueue)])"
    and "willSyncLocal g' = willSyncLocal g"
proof -
  from assms obtain g2 where
    g2: "(if op operation = ''deleteRecord'' then
          Inr (g\<lparr> pushedUpdates := (pushedUpdates g)
                 \<lparr> deletions := deletions (pushedUpdates g) @ [operation] \<rparr> \<rparr>)
        else if op operation = ''replaceRelatedRecord'' then
          Inr (g\<lparr> pushedUpdates := (pushedUpdates g)
                 \<lparr> belongsTo := belongsTo (pushedUpdates g) @ [operation] \<rparr> \<rparr>)
        else
          bindE (get env g (opRecord operation) (field operation)) (\<lambda>(g1, rel).
            case edgeAt g1 rel of
              None \<Rightarrow> Inl TypeError
            | Some e \<Rightarrow>
                if isImplicit e then Inl AssertionError
                else (case kind (definitionOf e) of
                        BelongsTo \<Rightarrow>
                          Inr (g1\<lparr> pushedUpdates := (pushedUpdates g1)
                                 \<lparr> belongsTo := belongsTo (pushedUpdates g1) @ [operation] \<rparr> \<rparr>)
                      | HasMany \<Rightarrow>
                          Inr (g1\<lparr> pushedUpdates := (pushedUpdates g1)
                                 \<lparr> hasMany := hasMany (pushedUpdates g1) @ [operation] \<rparr> \<rparr>)
                      | ImplicitKind \<Rightarrow> Inl TypeError))) = (Inr g2 :: Error + Graph)"
      and g': "(if \<not> willSyncRemote g2
          then schedule env (g2\<lparr> willSyncRemote := True \<rparr>) ''coalesce'' FlushRemoteQueue
          else Inr g2) = Inr g'"
      unfolding push_def bindE_eq_Inr by blast
  have fr: "scheduled g2 = scheduled g \<and> willSyncRemote g2 = willSyncRemote g
            \<and> willSyncLocal g2 = willSyncLocal g"
  proof (cases "op operation = ''deleteRecord'' \<or> op operation = ''replaceRelatedRecord''")
    case True
    with g2 show ?thesis by auto
  next
    case False
    with g2 obtain x where get: "get env g (opRecord operation) (field operation) = Inr x"
      and r: "(case x of (g1, rel) \<Rightarrow>
            case edgeAt g1 rel of
              None \<Rightarrow> Inl TypeError
            | Some e \<Rightarrow>
                if isImplicit e then Inl AssertionError
                else (case kind (definitionOf e) of
                        BelongsTo \<Rightarrow>
                          Inr (g1\<lparr> pushedUpdates := (pushedUpdates g1)
                                 \<lparr> belongsTo := belongsTo (pushedUpdates g1) @ [operation] \<rparr> \<rparr>)
                      | HasMany \<Rightarrow>
                          Inr (g1\<lparr> pushedUpdates := (pushedUpdates g1)
                                 \<lparr> hasMany := hasMany (pushedUpdates g1) @ [operation] \<rparr> \<rparr>)
                      | ImplicitKind \<Rightarrow> Inl TypeError)) = (Inr g2 :: Error + Graph)"
      by (auto simp: bindE_eq_Inr)
    obtain g1 rel where x: "x = (g1, rel)" by (cases x)
    from r x have "scheduled g2 = scheduled g1 \<and> willSyncRemote g2 = willSyncRemote g1
            \<and> willSyncLocal g2 = willSyncLocal g1"
      by (auto split: option.splits if_splits Kind.splits)
    with get_frame [OF get [unfolded x]] show ?thesis by simp
  qed
  show "willSyncRemote g'" using g' by (auto split: if_splits dest!: schedule_Inr)
  show "scheduled g' = (if willSyncRemote g then scheduled g
                         else scheduled g @ [(''coalesce'', FlushRemoteQueue)])"
    using g' fr by (auto split: if_splits dest!: schedule_Inr)
  show "willSyncLocal g' = willSyncLocal g"
    using g' fr by (auto split: if_splits dest!: schedule_Inr)
qed

lemma scheduleLocalSync_schedule:
  assumes "scheduleLocalSync env g rel = Inr g'"
  shows "willSyncLocal g'"
    and "scheduled g' = (if willSyncLocal g then scheduled g
                         else scheduled g @ [(''sync'', FlushLocalQueue)])"
    and "willSyncRemote g' = willSyncRemote g"
  using assms
  by (auto simp: scheduleLocalSync_def Let_def split: if_splits dest!: schedule_Inr)

lemma push_invariant:
  assumes "scheduleInvariant g" "push env g operation = Inr g'"
  shows "scheduleInvariant g'"
  using assms(1) push_schedule [OF assms(2)]
  by (auto simp: scheduleInvariant_def pending_def)

lemma scheduleLocalSync_invariant:
  assumes "scheduleInvariant g" "scheduleLocalSync env g rel = Inr g'"
  shows "scheduleInvariant g'"
  using assms(1) scheduleLocalSync_schedule [OF assms(2)]
  by (auto simp: scheduleInvariant_def pending_def)

lemma pending_dequeue:
  assumes "n < length xs"
  shows "length (filter P (take n xs @ drop (Suc n) xs))
           = length (filter P xs) - (if P (xs ! n) then 1 else 0)"
proof -
  have "xs = take n xs @ xs ! n # drop (Suc n) xs" using assms by (rule id_take_nth_drop)
  then have "length (filter P xs) = length (filter P (take n xs @ xs ! n # drop (Suc n) xs))"
    by simp
  then show ?thesis by simp
qed

lemma resetTransactionRef_schedule [simp]:
  "scheduled (resetTransactionRef v g) = scheduled g"
  "willSyncRemote (resetTransactionRef v g) = willSyncRemote g"
  "willSyncLocal (resetTransactionRef v g) = willSyncLocal g"
  by (simp_all add: resetTransactionRef_def setEdge_def split: option.splits)

lemma fold_reset_schedule [simp]:
  "scheduled (fold resetTransactionRef t g) = scheduled g"
  "willSyncRemote (fold resetTransactionRef t g) = willSyncRemote g"
  "willSyncLocal (fold resetTransactionRef t g) = willSyncLocal g"
  by (induction t arbitrary: g) simp_all

lemma finalize_schedule: "scheduleInvariant (finalize g) = scheduleInvariant g"
  by (simp add: finalize_def scheduleInvariant_def pending_def split: option.splits)

lemma flushRemoteQueue_eq:
  "flushRemoteQueue env g =
     (if willSyncRemote g
      then bindE (updateAll env (deletions (pushedUpdates g) @ hasMany (pushedUpdates g)
                                   @ belongsTo (pushedUpdates g))
                    (g\<lparr> transaction := Some [], willSyncRemote := False,
                        pushedUpdates := \<lparr> belongsTo = [], hasMany = [], deletions = [] \<rparr> \<rparr>))
             (\<lambda>g'. Inr (finalize g'))
      else Inr g)"
  by (simp add: flushRemoteQueue_def Let_def updateAll_append bindE_assoc)

lemma runScheduled_invariant:
  assumes col: "collaboratorsPreserve scheduleInvariant env"
      and inv: "scheduleInvariant g"
      and run: "runScheduled env g n = Inr g'"
  shows "scheduleInvariant g'"
proof (cases "n < length (scheduled g)")
  case False
  with run inv show ?thesis by (simp add: runScheduled_def)
next
  case True
  let ?g1 = "g\<lparr> scheduled := take n (scheduled g) @ drop (Suc n) (scheduled g) \<rparr>"
  have mem: "scheduled g ! n \<in> set (scheduled g)" using True by simp
  have entry: "scheduled g ! n = (''coalesce'', FlushRemoteQueue)
             \<or> scheduled g ! n = (''sync'', FlushLocalQueue)"
    using inv mem by (auto simp: scheduleInvariant_def list_all_iff)
  have rest: "list_all (\<lambda>entry. entry = (''coalesce'', FlushRemoteQueue)
                                \<or> entry = (''sync'', FlushLocalQueue)) (scheduled ?g1)"
    using inv by (auto simp: scheduleInvariant_def list_all_iff dest: in_set_takeD in_set_dropD)
  have cnt: "pending q ?g1 = pending q g - (if fst (scheduled g ! n) = q then 1 else 0)" for q
    using pending_dequeue [OF True, of "\<lambda>(q', cb). q' = q"]
    by (simp add: pending_def case_prod_unfold)
  from entry show ?thesis
  proof
    assume e: "scheduled g ! n = (''coalesce'', FlushRemoteQueue)"
    have "0 < pending ''coalesce'' g"
      using mem e by (auto simp: pending_def filter_empty_conv)
    with inv have flag: "willSyncRemote g" by (auto simp: scheduleInvariant_def split: if_splits)
    let ?g2 = "?g1\<lparr> transaction := Some [], willSyncRemote := False,
                    pushedUpdates := \<lparr> belongsTo = [], hasMany = [], deletions = [] \<rparr> \<rparr>"
    have inv2: "scheduleInvariant ?g2"
      using inv rest cnt [of "''coalesce''"] cnt [of "''sync''"] e flag
      by (simp add: scheduleInvariant_def pending_def)
    from run True e flag obtain g4 where
      u: "updateAll env (deletions (pushedUpdates g) @ hasMany (pushedUpdates g)
                           @ belongsTo (pushedUpdates g)) ?g2 = Inr g4"
      and g': "g' = finalize g4"
      by (auto simp: runScheduled_def flushRemoteQueue_eq bindE_eq_Inr)
    have "scheduleInvariant g4"
      using scheduleInvariant_own col inv2 u by (rule updateAll_preserves)
    then show ?thesis by (simp add: g' finalize_schedule)
  next
    assume e: "scheduled g ! n = (''sync'', FlushLocalQueue)"
    have "0 < pending ''sync'' g"
      using mem e by (auto simp: pending_def filter_empty_conv)
    with inv have flag: "willSyncLocal g" by (auto simp: scheduleInvariant_def split: if_splits)
    let ?g2 = "?g1\<lparr> willSyncLocal := False, updatedRelationships := [] \<rparr>"
    have inv2: "scheduleInvariant ?g2"
      using inv rest cnt [of "''coalesce''"] cnt [of "''sync''"] e flag
      by (simp add: scheduleInvariant_def pending_def)
    from run True e flag have "syncAll env (updatedRelationships g) ?g2 = Inr g'"
      by (simp add: runScheduled_def flushLocalQueue_def)
    with col inv2 show ?thesis by (rule syncAll_preserves)
  qed
qed

lemma step_invariant:
  assumes col: "collaboratorsPreserve scheduleInvariant env"
      and inv: "scheduleInvariant g"
      and st: "step env g ev = Inr g'"
  shows "scheduleInvariant g'"
proof (cases ev)
  case (Push operation)
  with st inv show ?thesis by (auto intro: push_invariant)
next
  case (Update operation isRemote)
  with st have "update env g operation isRemote = Inr g'" by simp
  with scheduleInvariant_own col inv show ?thesis by (rule update_preserves)
next
  case (ScheduleLocalSync rel)
  with st inv show ?thesis by (auto intro: scheduleLocalSync_invariant)
next
  case (RunScheduled n)
  with st have "runScheduled env g n = Inr g'" by simp
  with col inv show ?thesis by (rule runScheduled_invariant)
qed

lemma run_invariant:
  assumes col: "collaboratorsPreserve scheduleInvariant env"
  shows "scheduleInvariant g \<Longrightarrow> run env evs g = Inr g' \<Longrightarrow> scheduleInvariant g'"
proof (induction evs arbitrary: g)
  case Nil
  then show ?case by simp
next
  case (Cons ev evs)
  from Cons.prems(2) obtain g1 where a: "step env g ev = Inr g1" and b: "run env evs g1 = Inr g'"
    by (auto simp: bindE_eq_Inr)
  have "scheduleInvariant g1" using col Cons.prems(1) a by (rule step_invariant)
  then show ?case using b by (rule Cons.IH)
qed

lemma newGraph_scheduleInvariant: "scheduleInvariant (newGraph s)"
  by (simp add: scheduleInvariant_def pending_def newGraph_def)

lemma scheduleInvariant_pending:
  "scheduleInvariant g \<Longrightarrow> pending ''coalesce'' g \<le> 1 \<and> pending ''sync'' g \<le> 1"
  by (simp add: scheduleInvariant_def)

text \<open>
  Claim C8. \<open>push\<close> leaves the remote flag set and queues the remote flush only if the
  flag was not set; \<open>scheduleLocalSync\<close> does the same with the local flag and the local
  flush. Each flush returns the graph as it is when its flag is not set, and otherwise
  clears the flag before it applies anything. Hence, from a new graph, through any
  sequence of pushes, updates, local-sync requests and runs of queued callbacks by the
  scheduler, a flush is pending on a queue exactly when the flag of the queue is set, and
  never more than one, as long as the imported operations keep that invariant.
\<close>

theorem one_pending_flush_per_queue:
  "(push env g operation = Inr g' \<longrightarrow>
      willSyncRemote g'
      \<and> scheduled g' = (if willSyncRemote g then scheduled g
                         else scheduled g @ [(''coalesce'', FlushRemoteQueue)]))
   \<and> (scheduleLocalSync env g rel = Inr g' \<longrightarrow>
        willSyncLocal g'
        \<and> scheduled g' = (if willSyncLocal g then scheduled g
                           else scheduled g @ [(''sync'', FlushLocalQueue)]))
   \<and> flushRemoteQueue env g =
        (if willSyncRemote g
         then bindE (updateAll env (deletions (pushedUpdates g) @ hasMany (pushedUpdates g)
                                      @ belongsTo (pushedUpdates g))
                       (g\<lparr> transaction := Some [], willSyncRemote := False,
                           pushedUpdates := \<lparr> belongsTo = [], hasMany = [], deletions = [] \<rparr> \<rparr>))
                (\<lambda>g'. Inr (finalize g'))
         else Inr g)
   \<and> flushLocalQueue env g =
        (if willSyncLocal g
         then syncAll env (updatedRelationships g)
                (g\<lparr> willSyncLocal := False, updatedRelationships := [] \<rparr>)
         else Inr g)
   \<and> (collaboratorsPreserve scheduleInvariant env \<and> run env events (newGraph s) = Inr g' \<longrightarrow>
        scheduleInvariant g' \<and> pending ''coalesce'' g' \<le> 1 \<and> pending ''sync'' g' \<le> 1)"
proof (intro conjI impI)
  show "willSyncRemote g'" if "push env g operation = Inr g'"
    using that by (rule push_schedule)
  show "scheduled g' = (if willSyncRemote g then scheduled g
                         else scheduled g @ [(''coalesce'', FlushRemoteQueue)])"
    if "push env g operation = Inr g'"
    using that by (rule push_schedule)
  show "willSyncLocal g'" if "scheduleLocalSync env g rel = Inr g'"
    using that by (rule scheduleLocalSync_schedule)
  show "scheduled g' = (if willSyncLocal g then scheduled g
                           else scheduled g @ [(''sync'', FlushLocalQueue)])"
    if "scheduleLocalSync env g rel = Inr g'"
    using that by (rule scheduleLocalSync_schedule)
  show "flushRemoteQueue env g =
        (if willSyncRemote g
         then bindE (updateAll env (deletions (pushedUpdates g) @ hasMany (pushedUpdates g)
                                      @ belongsTo (pushedUpdates g))
                       (g\<lparr> transaction := Some [], willSyncRemote := False,
                           pushedUpdates := \<lparr> belongsTo = [], hasMany = [], deletions = [] \<rparr> \<rparr>))
                (\<lambda>g'. Inr (finalize g'))
         else Inr g)"
    by (rule flushRemoteQueue_eq)
  show "flushLocalQueue env g =
        (if willSyncLocal g
         then syncAll env (updatedRelationships g)
                (g\<lparr> willSyncLocal := False, updatedRelationships := [] \<rparr>)
         else Inr g)"
    by (simp add: flushLocalQueue_def)
  assume h: "collaboratorsPreserve scheduleInvariant env \<and> run env events (newGraph s) = Inr g'"
  then have inv: "scheduleInvariant g'"
    using run_invariant [of env "newGraph s" events g'] newGraph_scheduleInvariant by blast
  then show "scheduleInvariant g'" .
  from scheduleInvariant_pending [OF inv] show "pending ''coalesce'' g' \<le> 1" by (rule conjunct1)
  from scheduleInvariant_pending [OF inv] show "pending ''sync'' g' \<le> 1" by (rule conjunct2)
qed

lemma example_preserves_scheduleInvariant:
  "collaboratorsPreserve scheduleInvariant exampleCollaborators"
proof (rule exampleCollaborators_preserve)
  show "keptByOwnWrites baseCollaborators scheduleInvariant" by (rule scheduleInvariant_own)
next
  fix g rel i i'
  assume "scheduleInvariant g"
  then show "scheduleInvariant (setEdge g rel (Implicit i'))"
    by (simp add: scheduleInvariant_def pending_def setEdge_def)
qed

theorem one_pending_flush_per_queue_witness:
  "collaboratorsPreserve scheduleInvariant exampleCollaborators
   \<and> run exampleCollaborators
         [Push replaceComments, Push deleteComment1, ScheduleLocalSync 0, ScheduleLocalSync 0,
          RunScheduled 0, Push replaceAuthor] (newGraph 7)
       = Inr ((newGraph 7)
                \<lparr> edges := [Collection (createCollectionRelationship
                                \<lparr> hasReceivedData = False, isEmpty = True \<rparr> commentsMeta post1)],
                  nodes := [[(''comments'', Some 0)]],
                  identifiers := [(post1, 0)],
                  willSyncRemote := True, willSyncLocal := True,
                  pushedUpdates := \<lparr> belongsTo = [replaceAuthor], hasMany = [], deletions = [] \<rparr>,
                  updatedRelationships := [0],
                  scheduled := [(''sync'', FlushLocalQueue), (''coalesce'', FlushRemoteQueue)] \<rparr>)
   \<and> pending ''coalesce''
         ((newGraph 7)
                \<lparr> edges := [Collection (createCollectionRelationship
                                \<lparr> hasReceivedData = False, isEmpty = True \<rparr> commentsMeta post1)],
                  nodes := [[(''comments'', Some 0)]],
                  identifiers := [(post1, 0)],
                  willSyncRemote := True, willSyncLocal := True,
                  pushedUpdates := \<lparr> belongsTo = [replaceAuthor], hasMany = [], deletions = [] \<rparr>,
                  updatedRelationships := [0],
                  scheduled := [(''sync'', FlushLocalQueue), (''coalesce'', FlushRemoteQueue)] \<rparr>) \<le> 1
   \<and> push exampleCollaborators (newGraph 7) replaceAuthor
       = Inr ((newGraph 7)
                \<lparr> willSyncRemote := True,
                  pushedUpdates := \<lparr> belongsTo = [replaceAuthor], hasMany = [], deletions = [] \<rparr>,
                  scheduled := [(''coalesce'', FlushRemoteQueue)] \<rparr>)
   \<and> scheduleLocalSync exampleCollaborators (newGraph 7) 0
       = Inr ((newGraph 7)
                \<lparr> willSyncLocal := True, updatedRelationships := [0],
                  scheduled := [(''sync'', FlushLocalQueue)] \<rparr>)"
proof -
  let ?final = "(newGraph 7)
                \<lparr> edges := [Collection (createCollectionRelationship
                                \<lparr> hasReceivedData = False, isEmpty = True \<rparr> commentsMeta post1)],
                  nodes := [[(''comments'', Some 0)]],
                  identifiers := [(post1, 0)],
                  willSyncRemote := True, willSyncLocal := True,
                  pushedUpdates := \<lparr> belongsTo = [replaceAuthor], hasMany = [], deletions = [] \<rparr>,
                  updatedRelationships := [0],
                  scheduled := [(''sync'', FlushLocalQueue), (''coalesce'', FlushRemoteQueue)] \<rparr>"
  let ?events = "[Push replaceComments, Push deleteComment1, ScheduleLocalSync 0, ScheduleLocalSync 0,
          RunScheduled 0, Push replaceAuthor]"
  have a: "collaboratorsPreserve scheduleInvariant exampleCollaborators"
    by (rule example_preserves_scheduleInvariant)
  have b: "run exampleCollaborators ?events (newGraph 7) = Inr ?final" by code_simp
  have c: "push exampleCollaborators (newGraph 7) replaceAuthor
       = Inr ((newGraph 7)
                \<lparr> willSyncRemote := True,
                  pushedUpdates := \<lparr> belongsTo = [replaceAuthor], hasMany = [], deletions = [] \<rparr>,
                  scheduled := [(''coalesce'', FlushRemoteQueue)] \<rparr>)" by code_simp
  have d: "scheduleLocalSync exampleCollaborators (newGraph 7) 0
       = Inr ((newGraph 7)
                \<lparr> willSyncLocal := True, updatedRelationships := [0],
                  scheduled := [(''sync'', FlushLocalQueue)] \<rparr>)" by code_simp
  have "pending ''coalesce'' ?final \<le> 1"
    using one_pending_flush_per_queue [of exampleCollaborators _ _ ?final _ ?events 7] a b by blast
  then show ?thesis using a b c d by simp
qed

subsection \<open>Removing related records\<close>

lemma get_entry:
  assumes alloc: "identifiersAllocated g"
      and get: "get env g ident propertyName = Inr (g1, r)"
  shows "entryOf g1 ident propertyName = Some r"
  using get_cases [OF get]
proof (elim disjE exE conjE)
  fix d
  assume "map_of (identifiers g) ident = Some d" "dictGet (nodeAt g d) propertyName = Some r" "g1 = g"
  then show ?thesis by (simp add: entryOf_def)
next
  fix d m
  assume d: "map_of (identifiers (withNode g ident)) ident = Some d"
     and g1: "g1 = setNode ((withNode g ident)\<lparr> edges := edges g @ [newEdge env m ident] \<rparr>) d
                      (AList.update propertyName (Some r) (nodeAt (withNode g ident) d))"
  have "d < length (nodes (withNode g ident))" using alloc d by (rule withNode_allocated)
  then show ?thesis using d by (simp add: entryOf_def g1 setNode_def nodeAt_def)
qed

lemma entry_get:
  assumes "entryOf g ident propertyName = Some r" "propertyName \<noteq> []"
  shows "get env g ident propertyName = Inr (g, r)"
  using assms by (auto simp: entryOf_def split: option.splits intro: get_again)

lemma collectionAgrees_new: "collectionAgrees (createCollectionRelationship st m ident)"
  by (simp add: collectionAgrees_def createCollectionRelationship_def)

lemma collectionAgrees_remove:
  assumes "collectionAgrees c"
  shows "collectionAgrees (c\<lparr> localMembers := localMembers c - {v},
                               localState := remove1 v (localState c) \<rparr>)"
  using assms by (auto simp: collectionAgrees_def)

lemma collectionAgrees_sizes:
  assumes "collectionAgrees c"
  shows "length (localState c) = card (localMembers c)"
    and "length (remoteState c) = card (remoteMembers c)"
  using assms by (metis collectionAgrees_def distinct_card)+

lemma graphAgreesD:
  "graphAgrees g \<Longrightarrow> edgeAt g rel = Some (Collection c) \<Longrightarrow> collectionAgrees c"
  by (auto simp: graphAgrees_def edgeAt_def list_all_length split: if_splits)

lemma graphAgrees_own: "keptByOwnWrites env graphAgrees"
  unfolding keptByOwnWrites_def
proof (intro conjI allI impI)
  fix g ident assume "graphAgrees g"
  then show "graphAgrees (withNode g ident)" by (simp add: graphAgrees_def withNode_frame)
next
  fix g d n assume "graphAgrees g"
  then show "graphAgrees (setNode g d n)" by (simp add: graphAgrees_def setNode_def)
next
  fix g m ident assume "graphAgrees g"
  then show "graphAgrees (g\<lparr> edges := edges g @ [newEdge env m ident] \<rparr>)"
    by (simp add: graphAgrees_def newEdge_def collectionAgrees_new split: Kind.splits)
next
  fix g rel c v
  assume g: "graphAgrees g" and c: "edgeAt g rel = Some (Collection c)"
  have "collectionAgrees c" using g c by (rule graphAgreesD)
  then have "collectionAgrees (c\<lparr> localMembers := localMembers c - {v},
                               localState := remove1 v (localState c) \<rparr>)"
    by (rule collectionAgrees_remove)
  then have "case (edges g)[rel := Collection (c\<lparr> localMembers := localMembers c - {v},
                                  localState := remove1 v (localState c) \<rparr>)] ! n of
               Collection x \<Rightarrow> collectionAgrees x | _ \<Rightarrow> True"
    if "n < length (edges g)" for n
    using g that by (cases "n = rel") (simp_all add: graphAgrees_def list_all_length)
  then show "graphAgrees (setEdge g rel (Collection (c\<lparr> localMembers := localMembers c - {v},
                                            localState := remove1 v (localState c) \<rparr>)))"
    by (simp add: graphAgrees_def setEdge_def list_all_length)
next
  fix g ident assume "graphAgrees g"
  then show "graphAgrees (g\<lparr> identifiers := AList.delete ident (identifiers g) \<rparr>)"
    by (simp add: graphAgrees_def)
qed

lemma removeRelatedRecord_present:
  assumes "edgeAt g rel = Some (Collection c)" "collectionAgrees c" "v \<in> localMembers c"
  shows "removeRelatedRecord env g rel record (Some v) isRemote
           = removeFromInverse env
               (setEdge g rel (Collection (c\<lparr> localMembers := localMembers c - {v},
                                                 localState := remove1 v (localState c) \<rparr>)))
               v (inverseKey (edgeDefinition c)) record isRemote"
  using assms by (simp add: removeRelatedRecord_def collectionAgrees_def)

text \<open>
  Claim C1. A new collection edge has both membership sets and both ordered sequences
  empty, so that they agree. When a collection edge agrees and holds the value locally,
  \<open>removeRelatedRecord\<close> takes the value out of the local membership set and out of the
  local ordered sequence together (the assertion that the two are in sync cannot fail),
  the edge agrees again, and only then is \<open>removeFromInverse\<close> called. Hence
  \<open>removeFromRelatedRecords\<close> keeps the agreement of every collection edge of the
  graph, as long as \<open>removeFromInverse\<close> and \<open>notifyChange\<close> keep it. Agreement
  includes that the sizes are the same.
\<close>

theorem membership_and_order_agree:
  "collectionAgrees (createCollectionRelationship st m ident)
   \<and> localMembers (createCollectionRelationship st m ident) = {}
   \<and> localState (createCollectionRelationship st m ident) = []
   \<and> remoteMembers (createCollectionRelationship st m ident) = {}
   \<and> remoteState (createCollectionRelationship st m ident) = []
   \<and> (collectionAgrees c \<longrightarrow>
        length (localState c) = card (localMembers c)
        \<and> length (remoteState c) = card (remoteMembers c))
   \<and> (edgeAt g rel = Some (Collection c) \<and> collectionAgrees c \<and> v \<in> localMembers c \<longrightarrow>
        collectionAgrees (c\<lparr> localMembers := localMembers c - {v},
                               localState := remove1 v (localState c) \<rparr>)
        \<and> v \<notin> set (remove1 v (localState c))
        \<and> removeRelatedRecord env g rel owner (Some v) isRemote
            = removeFromInverse env
                (setEdge g rel (Collection (c\<lparr> localMembers := localMembers c - {v},
                                                  localState := remove1 v (localState c) \<rparr>)))
                v (inverseKey (edgeDefinition c)) owner isRemote)
   \<and> (graphAgrees g
        \<and> (\<forall>ident k v isRemote. preserves graphAgrees (\<lambda>g. removeFromInverse env g ident k v isRemote))
        \<and> (\<forall>ident k. preserves graphAgrees (\<lambda>g. notifyChange env g ident k))
        \<and> removeFromRelatedRecords env g operation isRemote = Inr g' \<longrightarrow> graphAgrees g')"
proof (intro conjI impI)
  show "collectionAgrees (createCollectionRelationship st m ident)" by (rule collectionAgrees_new)
  show "localMembers (createCollectionRelationship st m ident) = {}"
       "localState (createCollectionRelationship st m ident) = []"
       "remoteMembers (createCollectionRelationship st m ident) = {}"
       "remoteState (createCollectionRelationship st m ident) = []"
    by (simp_all add: createCollectionRelationship_def)
  show "length (localState c) = card (localMembers c)" if "collectionAgrees c"
    using that by (rule collectionAgrees_sizes)
  show "length (remoteState c) = card (remoteMembers c)" if "collectionAgrees c"
    using that by (rule collectionAgrees_sizes)
next
  assume h: "edgeAt g rel = Some (Collection c) \<and> collectionAgrees c \<and> v \<in> localMembers c"
  then show "collectionAgrees (c\<lparr> localMembers := localMembers c - {v},
                               localState := remove1 v (localState c) \<rparr>)"
    by (simp add: collectionAgrees_remove)
  from h show "v \<notin> set (remove1 v (localState c))"
    by (simp add: collectionAgrees_def)
  from h show "removeRelatedRecord env g rel owner (Some v) isRemote
            = removeFromInverse env
                (setEdge g rel (Collection (c\<lparr> localMembers := localMembers c - {v},
                                                  localState := remove1 v (localState c) \<rparr>)))
                v (inverseKey (edgeDefinition c)) owner isRemote"
    by (simp add: removeRelatedRecord_present)
next
  assume h: "graphAgrees g
        \<and> (\<forall>ident k v isRemote. preserves graphAgrees (\<lambda>g. removeFromInverse env g ident k v isRemote))
        \<and> (\<forall>ident k. preserves graphAgrees (\<lambda>g. notifyChange env g ident k))
        \<and> removeFromRelatedRecords env g operation isRemote = Inr g'"
  show "graphAgrees g'"
  proof (rule removeFromRelatedRecords_preserves [OF graphAgrees_own])
    show "preserves graphAgrees (\<lambda>g. removeFromInverse env g ident k v isRemote)" for ident k v isRemote
      using h by blast
    show "preserves graphAgrees (\<lambda>g. notifyChange env g ident k)" for ident k
      using h by blast
    show "graphAgrees g" using h by blast
    show "removeFromRelatedRecords env g operation isRemote = Inr g'" using h by blast
  qed
qed

lemma entryOf_frame [simp]:
  "entryOf (setEdge g rel e) ident f = entryOf g ident f"
  "entryOf (g\<lparr> edges := es \<rparr>) ident f = entryOf g ident f"
  by (simp_all add: entryOf_def setEdge_def nodeAt_def split: option.splits)

lemma entryOf_allocated:
  assumes "entryOf g ident f = Some rel"
  shows "\<exists>d. map_of (identifiers g) ident = Some d \<and> d < length (nodes g)
             \<and> dictGet (nodes g ! d) f = Some rel"
  using assms by (auto simp: entryOf_def nodeAt_def split: option.splits if_splits)

lemma get_keeps_entry:
  assumes get: "get env g i k = Inr (g1, r)"
      and entry: "entryOf g ident f = Some rel"
  shows "entryOf g1 ident f = Some rel"
  using get_cases [OF get]
proof (elim disjE exE conjE)
  assume "g1 = g" with entry show ?thesis by simp
next
  fix d m
  assume nohas: "\<not> has g i k"
     and d: "map_of (identifiers (withNode g i)) i = Some d"
     and g1: "g1 = setNode ((withNode g i)\<lparr> edges := edges g @ [newEdge env m i] \<rparr>) d
                      (AList.update k (Some r) (nodeAt (withNode g i) d))"
  from entryOf_allocated [OF entry] obtain d0 where
    d0: "map_of (identifiers g) ident = Some d0" and lt: "d0 < length (nodes g)"
    and e0: "dictGet (nodes g ! d0) f = Some rel" by blast
  show ?thesis
  proof (cases "map_of (identifiers g) i")
    case None
    then have "i \<noteq> ident" using d0 by auto
    with None d d0 lt e0 show ?thesis
      by (auto simp: g1 withNode_def entryOf_def setNode_def nodeAt_def update_conv' nth_append
                     nth_list_update)
  next
    case (Some di)
    with d have dd: "d = di" by (simp add: withNode_def)
    have w: "withNode g i = g" using Some by (simp add: withNode_def)
    show ?thesis
    proof (cases "d = d0 \<and> k = f")
      case True
      with Some dd e0 lt have "has g i k" by (simp add: has_def nodeAt_def)
      with nohas show ?thesis by simp
    next
      case False
      with d0 lt e0 show ?thesis
        by (auto simp: g1 w entryOf_def setNode_def nodeAt_def nth_list_update)
    qed
  qed
qed

lemma get_keeps_edge:
  assumes get: "get env g i k = Inr (g1, r)"
      and e: "edgeAt g rel = Some e"
  shows "edgeAt g1 rel = Some e"
  using get_cases [OF get] e
  by (auto simp: edgeAt_def setNode_def nth_append split: if_splits)

lemma fold_removeLocal_frame:
  "localMembers (fold removeLocal vs c) = localMembers c - set vs"
  "remoteMembers (fold removeLocal vs c) = remoteMembers c"
  "remoteState (fold removeLocal vs c) = remoteState c"
  "edgeDefinition (fold removeLocal vs c) = edgeDefinition c"
  "edgeIdentifier (fold removeLocal vs c) = edgeIdentifier c"
  by (induction vs arbitrary: c) (auto simp: removeLocal_def)

lemma removeLocal_agrees:
  assumes "collectionAgrees c"
  shows "collectionAgrees (removeLocal v c)"
    and "localState (removeLocal v c) = filter (\<lambda>x. x \<noteq> v) (localState c)"
proof -
  show "collectionAgrees (removeLocal v c)"
    using assms by (simp add: removeLocal_def collectionAgrees_remove)
  have "remove1 v (localState c) = filter (\<lambda>x. x \<noteq> v) (localState c)"
    using assms by (simp add: collectionAgrees_def distinct_remove1_removeAll removeAll_filter_not_eq
                        cong: filter_cong) (metis (mono_tags, lifting) filter_cong)
  moreover have "v \<notin> localMembers c \<Longrightarrow> filter (\<lambda>x. x \<noteq> v) (localState c) = localState c"
    using assms by (auto simp: collectionAgrees_def filter_id_conv)
  ultimately show "localState (removeLocal v c) = filter (\<lambda>x. x \<noteq> v) (localState c)"
    by (simp add: removeLocal_def)
qed

lemma fold_removeLocal_agrees:
  "collectionAgrees c \<Longrightarrow>
     collectionAgrees (fold removeLocal vs c)
     \<and> localState (fold removeLocal vs c) = filter (\<lambda>x. x \<notin> set vs) (localState c)"
proof (induction vs arbitrary: c)
  case Nil
  then show ?case by simp
next
  case (Cons v vs)
  have a: "collectionAgrees (removeLocal v c)" using Cons.prems by (rule removeLocal_agrees)
  from Cons.IH [OF a] removeLocal_agrees(2) [OF Cons.prems, of v]
  show ?case by (auto intro: filter_cong)
qed

lemma removeFromRelatedRecords_unfold:
  assumes get: "get env g (opRecord operation) (field operation) = Inr (g1, rel)"
      and c: "edgeAt g1 rel = Some (Collection c)"
  shows "removeFromRelatedRecords env g operation isRemote =
           bindE
             (case opValue operation of
                Many vs \<Rightarrow> removeRelatedRecordsLoop env rel (opRecord operation) isRemote vs g1
              | One v \<Rightarrow> removeRelatedRecord env g1 rel (opRecord operation) (Some v) isRemote
              | Null \<Rightarrow> removeRelatedRecord env g1 rel (opRecord operation) None isRemote)
             (\<lambda>g2.
                case edgeAt g2 rel of
                  Some (Collection c2) \<Rightarrow>
                    notifyChange env g2 (edgeIdentifier c2) (key (edgeDefinition c2))
                | _ \<Rightarrow> Inl TypeError)"
  using assms by (simp add: removeFromRelatedRecords_def)

lemma exampleRemoveFromInverse_leavesEdgeAlone:
  "leavesEdgeAlone ident f rel (\<lambda>g. exampleRemoveFromInverse g i k v isRemote)"
  unfolding leavesEdgeAlone_def
proof (intro allI impI)
  fix g g' c
  assume r: "exampleRemoveFromInverse g i k v isRemote = Inr g'"
     and entry: "entryOf g ident f = Some rel"
     and c: "edgeAt g rel = Some (Collection c)"
  from r obtain x where getx: "get baseCollaborators g i k = Inr x"
    by (cases "get baseCollaborators g i k") (simp_all add: exampleRemoveFromInverse_def)
  obtain g1 r1 where x: "x = (g1, r1)" by (cases x)
  have get: "get baseCollaborators g i k = Inr (g1, r1)" using getx x by simp
  have rest: "(case edgeAt g1 r1 of
         Some (Implicit i) \<Rightarrow>
           Inr (setEdge g1 r1
                  (Implicit (i\<lparr> localMembers := localMembers i - {v},
                                 remoteMembers := (if isRemote then remoteMembers i - {v}
                                                   else remoteMembers i) \<rparr>)))
       | _ \<Rightarrow> Inr g1) = (Inr g' :: Error + Graph)"
    using r get by (simp add: exampleRemoveFromInverse_def)
  have e1: "entryOf g1 ident f = Some rel" using get entry by (rule get_keeps_entry)
  have c1: "edgeAt g1 rel = Some (Collection c)" using get c by (rule get_keeps_edge)
  show "entryOf g' ident f = Some rel \<and> edgeAt g' rel = Some (Collection c)"
  proof (cases "edgeAt g1 r1")
    case None
    with rest e1 c1 show ?thesis by simp
  next
    case (Some e)
    show ?thesis
    proof (cases e)
      case (Implicit im)
      with Some c1 have "r1 \<noteq> rel" by auto
      with Implicit Some rest e1 c1 show ?thesis by (auto simp: edgeAt_setEdge)
    next
      case (Collection c')
      with Some rest e1 c1 show ?thesis by simp
    next
      case (Resource b)
      with Some rest e1 c1 show ?thesis by simp
    qed
  qed
qed

lemma example_leaves:
  "leavesEdgeAlone ident f rel (\<lambda>g. removeFromInverse exampleCollaborators g i k v isRemote)"
  "leavesEdgeAlone ident f rel (\<lambda>g. notifyChange exampleCollaborators g i k)"
proof -
  have "removeFromInverse exampleCollaborators = exampleRemoveFromInverse"
    by (simp add: exampleCollaborators_def)
  then show "leavesEdgeAlone ident f rel (\<lambda>g. removeFromInverse exampleCollaborators g i k v isRemote)"
    by (simp add: exampleRemoveFromInverse_leavesEdgeAlone)
  show "leavesEdgeAlone ident f rel (\<lambda>g. notifyChange exampleCollaborators g i k)"
    by (simp add: leavesEdgeAlone_def exampleCollaborators_def baseCollaborators_def)
qed

lemma get_result:
  assumes "get env g i k = Inr (g1, r)"
  shows "entryOf g i k = Some r \<or> r = length (edges g)"
  using get_cases [OF assms] by (auto simp: entryOf_def)

lemma get_entry_origin:
  assumes get: "get env g i k = Inr (g1, r)"
      and x: "entryOf g1 i' k' = Some x"
  shows "entryOf g i' k' = Some x \<or> x = length (edges g)"
  using get_cases [OF get]
proof (elim disjE exE conjE)
  assume "g1 = g" with x show ?thesis by simp
next
  fix d m
  assume d: "map_of (identifiers (withNode g i)) i = Some d"
     and r: "r = length (edges g)"
     and g1: "g1 = setNode ((withNode g i)\<lparr> edges := edges g @ [newEdge env m i] \<rparr>) d
                      (AList.update k (Some r) (nodeAt (withNode g i) d))"
  show ?thesis
  proof (cases "map_of (identifiers g) i")
    case None
    with d have dd: "d = length (nodes g)" by (simp add: withNode_def update_conv')
    from None x r show ?thesis
      by (auto simp: g1 dd withNode_def entryOf_def setNode_def nodeAt_def update_conv' nth_append
                     dictGet_def
               split: option.splits if_splits)
  next
    case (Some di)
    then have w: "withNode g i = g" by (simp add: withNode_def)
    from x r show ?thesis
      by (auto simp: g1 w entryOf_def setNode_def nodeAt_def nth_list_update dictGet_def update_conv'
               split: option.splits if_splits)
  qed
qed

lemma mirrorRemoveFromInverse_writesOnlyStoredEdge:
  "writesOnlyStoredEdge ident k (\<lambda>g. mirrorRemoveFromInverse env g ident k v isRemote)"
  unfolding writesOnlyStoredEdge_def
proof (intro allI impI)
  fix g g'
  assume r: "mirrorRemoveFromInverse env g ident k v isRemote = Inr g'"
  from r obtain x where getx: "get env g ident k = Inr x"
    by (cases "get env g ident k") (simp_all add: mirrorRemoveFromInverse_def)
  obtain g1 r1 where x: "x = (g1, r1)" by (cases x)
  have get: "get env g ident k = Inr (g1, r1)" using getx x by simp
  from r get obtain e1 where g': "g' = setEdge g1 r1 e1"
    by (auto simp: mirrorRemoveFromInverse_def split: option.splits RelationshipEdge.splits)
  have entries: "entryOf g' i f = entryOf g1 i f" for i f by (simp add: g')
  show "(\<forall>rel e. edgeAt g rel = Some e \<longrightarrow> entryOf g ident k \<noteq> Some rel \<longrightarrow>
             edgeAt g' rel = Some e)
      \<and> (\<forall>i k rel. entryOf g i k = Some rel \<longrightarrow> entryOf g' i k = Some rel)
      \<and> (\<forall>i k rel. entryOf g' i k = Some rel \<longrightarrow>
             entryOf g i k = Some rel \<or> length (edges g) \<le> rel)"
  proof (intro conjI allI impI)
    fix rel e
    assume e: "edgeAt g rel = Some e" and other: "entryOf g ident k \<noteq> Some rel"
    have lt: "rel < length (edges g)" using e by (simp add: edgeAt_def split: if_splits)
    from get_result [OF get] other lt have ne: "r1 \<noteq> rel" by auto
    have "edgeAt g1 rel = Some e" using get e by (rule get_keeps_edge)
    with ne show "edgeAt g' rel = Some e" by (simp add: g' edgeAt_setEdge)
  next
    fix i f rel
    assume "entryOf g i f = Some rel"
    with get have "entryOf g1 i f = Some rel" by (rule get_keeps_entry)
    then show "entryOf g' i f = Some rel" by (simp add: entries)
  next
    fix i f rel
    assume "entryOf g' i f = Some rel"
    then have "entryOf g1 i f = Some rel" by (simp add: entries)
    from get_entry_origin [OF get this]
    show "entryOf g i f = Some rel \<or> length (edges g) \<le> rel" by auto
  qed
qed

lemma removeLocal_edgeDefinition:
  "edgeDefinition (removeLocal v c) = edgeDefinition c"
  by (simp add: removeLocal_def)

lemma removeRelatedRecord_apart:
  assumes frame: "\<And>ident k v. writesOnlyStoredEdge ident k
                     (\<lambda>g. removeFromInverse env g ident k v isRemote)"
      and entry: "entryOf g owner f = Some rel"
      and c: "edgeAt g rel = Some (Collection c)"
      and apart: "\<forall>x \<in> set xs. entryOf g x (inverseKey (edgeDefinition c)) \<noteq> Some rel"
      and v: "v \<in> set xs"
      and rm: "removeRelatedRecord env g rel owner (Some v) isRemote = Inr g'"
  shows "entryOf g' owner f = Some rel \<and> edgeAt g' rel = Some (Collection (removeLocal v c))
       \<and> (\<forall>x \<in> set xs. entryOf g' x (inverseKey (edgeDefinition c)) \<noteq> Some rel)"
proof (cases "v \<in> localMembers c")
  case False
  with rm c entry apart show ?thesis by (simp add: removeRelatedRecord_def removeLocal_def)
next
  case True
  let ?c = "c\<lparr> localMembers := localMembers c - {v}, localState := remove1 v (localState c) \<rparr>"
  let ?g = "setEdge g rel (Collection ?c)"
  let ?k = "inverseKey (edgeDefinition c)"
  from rm c True have r: "removeFromInverse env ?g v ?k owner isRemote = Inr g'"
    by (auto simp: removeRelatedRecord_def split: if_splits)
  have lt: "rel < length (edges g)" using c by (simp add: edgeAt_def split: if_splits)
  have e: "edgeAt ?g rel = Some (Collection ?c)" using lt by (simp add: edgeAt_setEdge)
  have n: "entryOf ?g owner f = Some rel" using entry by simp
  have len: "length (edges ?g) = length (edges g)" by (simp add: setEdge_def)
  have other: "entryOf ?g v ?k \<noteq> Some rel" using apart v by simp
  from frame [of v ?k owner, unfolded writesOnlyStoredEdge_def] r
  have A: "\<And>rel e. edgeAt ?g rel = Some e \<Longrightarrow> entryOf ?g v ?k \<noteq> Some rel \<Longrightarrow> edgeAt g' rel = Some e"
    and B: "\<And>i k rel. entryOf ?g i k = Some rel \<Longrightarrow> entryOf g' i k = Some rel"
    and C: "\<And>i k rel. entryOf g' i k = Some rel \<Longrightarrow>
               entryOf ?g i k = Some rel \<or> length (edges ?g) \<le> rel"
    by blast+
  have 1: "entryOf g' owner f = Some rel" using n by (rule B)
  have 2: "edgeAt g' rel = Some (Collection ?c)" using e other by (rule A)
  have 3: "entryOf g' x ?k \<noteq> Some rel" if "x \<in> set xs" for x
  proof
    assume "entryOf g' x ?k = Some rel"
    from C [OF this] lt have "entryOf ?g x ?k = Some rel" by (simp add: len)
    with apart that show False by simp
  qed
  from 1 2 3 True show ?thesis by (simp add: removeLocal_def)
qed

lemma removeRelatedRecordsLoop_apart:
  assumes frame: "\<And>ident k v. writesOnlyStoredEdge ident k
                     (\<lambda>g. removeFromInverse env g ident k v isRemote)"
  shows "entryOf g owner f = Some rel \<Longrightarrow> edgeAt g rel = Some (Collection c) \<Longrightarrow>
         \<forall>x \<in> set xs. entryOf g x (inverseKey (edgeDefinition c)) \<noteq> Some rel \<Longrightarrow>
         set vs \<subseteq> set xs \<Longrightarrow>
         removeRelatedRecordsLoop env rel owner isRemote vs g = Inr g' \<Longrightarrow>
         entryOf g' owner f = Some rel \<and> edgeAt g' rel = Some (Collection (fold removeLocal vs c))"
proof (induction vs arbitrary: g c)
  case Nil
  then show ?case by simp
next
  case (Cons v vs)
  from Cons.prems(5) obtain g1 where
    a: "removeRelatedRecord env g rel owner (Some v) isRemote = Inr g1"
    and b: "removeRelatedRecordsLoop env rel owner isRemote vs g1 = Inr g'"
    by (auto simp: bindE_eq_Inr)
  have v: "v \<in> set xs" and vs: "set vs \<subseteq> set xs" using Cons.prems(4) by simp_all
  from removeRelatedRecord_apart [OF frame Cons.prems(1,2,3) v a]
  have e1: "entryOf g1 owner f = Some rel"
    and c1: "edgeAt g1 rel = Some (Collection (removeLocal v c))"
    and a1: "\<forall>x \<in> set xs. entryOf g1 x (inverseKey (edgeDefinition (removeLocal v c))) \<noteq> Some rel"
    by (simp_all add: removeLocal_edgeDefinition)
  from Cons.IH [OF e1 c1 a1 vs b] show ?case by simp
qed

lemma removeValues_apart:
  assumes frame: "\<And>ident k v. writesOnlyStoredEdge ident k
                     (\<lambda>g. removeFromInverse env g ident k v isRemote)"
      and entry: "entryOf g owner f = Some rel"
      and c: "edgeAt g rel = Some (Collection c)"
      and apart: "\<forall>x \<in> set (operationValues val). entryOf g x (inverseKey (edgeDefinition c)) \<noteq> Some rel"
      and rm: "(case val of
                Many vs \<Rightarrow> removeRelatedRecordsLoop env rel owner isRemote vs g
              | One v \<Rightarrow> removeRelatedRecord env g rel owner (Some v) isRemote
              | Null \<Rightarrow> removeRelatedRecord env g rel owner None isRemote) = Inr g'"
  shows "entryOf g' owner f = Some rel
       \<and> edgeAt g' rel = Some (Collection (fold removeLocal (operationValues val) c))"
proof (cases val)
  case Null
  with rm show ?thesis by (simp add: removeRelatedRecord_def)
next
  case (One v)
  with rm have r: "removeRelatedRecord env g rel owner (Some v) isRemote = Inr g'" by simp
  have "v \<in> set (operationValues val)" using One by simp
  from removeRelatedRecord_apart [OF frame entry c apart this r] One show ?thesis by simp
next
  case (Many vs)
  with rm have r: "removeRelatedRecordsLoop env rel owner isRemote vs g = Inr g'" by simp
  have "set vs \<subseteq> set (operationValues val)" using Many by simp
  from removeRelatedRecordsLoop_apart [OF frame entry c apart this r] Many show ?thesis by simp
qed

lemma removeFromRelatedRecords_apart:
  assumes alloc: "identifiersAllocated g"
      and frame: "\<And>ident k v. writesOnlyStoredEdge ident k
                     (\<lambda>g. removeFromInverse env g ident k v isRemote)"
      and nfy: "\<And>ident k. leavesEdgeAlone (opRecord operation) (field operation) rel
                     (\<lambda>g. notifyChange env g ident k)"
      and get: "get env g (opRecord operation) (field operation) = Inr (g1, rel)"
      and c: "edgeAt g1 rel = Some (Collection c)"
      and apart: "\<forall>x \<in> set (operationValues (opValue operation)).
                     entryOf g1 x (inverseKey (edgeDefinition c)) \<noteq> Some rel"
      and rm: "removeFromRelatedRecords env g operation isRemote = Inr g'"
  shows "edgeAt g' rel = Some (Collection (fold removeLocal (operationValues (opValue operation)) c))"
proof -
  let ?c = "fold removeLocal (operationValues (opValue operation)) c"
  have entry: "entryOf g1 (opRecord operation) (field operation) = Some rel"
    using alloc get by (rule get_entry)
  from rm [unfolded removeFromRelatedRecords_unfold [OF get c] bindE_eq_Inr]
  obtain g2 where
    vals: "(case opValue operation of
                Many vs \<Rightarrow> removeRelatedRecordsLoop env rel (opRecord operation) isRemote vs g1
              | One v \<Rightarrow> removeRelatedRecord env g1 rel (opRecord operation) (Some v) isRemote
              | Null \<Rightarrow> removeRelatedRecord env g1 rel (opRecord operation) None isRemote) = Inr g2"
    and n: "(case edgeAt g2 rel of
                  Some (Collection c2) \<Rightarrow>
                    notifyChange env g2 (edgeIdentifier c2) (key (edgeDefinition c2))
                | _ \<Rightarrow> Inl TypeError) = Inr g'"
    by blast
  from removeValues_apart [OF frame entry c apart vals]
  have e2: "entryOf g2 (opRecord operation) (field operation) = Some rel"
    and c2: "edgeAt g2 rel = Some (Collection ?c)" by simp_all
  from n c2 have "notifyChange env g2 (edgeIdentifier ?c) (key (edgeDefinition ?c)) = Inr g'"
    by simp
  with nfy [unfolded leavesEdgeAlone_def] e2 c2
  show "edgeAt g' rel = Some (Collection ?c)" by blast
qed

lemma tag_frames:
  "writesOnlyStoredEdge ident k (\<lambda>g. removeFromInverse tagCollaborators g ident k v isRemote)"
  "leavesEdgeAlone i f rel (\<lambda>g. notifyChange tagCollaborators g ident k)"
proof -
  have "removeFromInverse tagCollaborators = mirrorRemoveFromInverse tagBaseCollaborators"
    by (simp add: tagCollaborators_def)
  then show "writesOnlyStoredEdge ident k (\<lambda>g. removeFromInverse tagCollaborators g ident k v isRemote)"
    by (simp add: mirrorRemoveFromInverse_writesOnlyStoredEdge)
  show "leavesEdgeAlone i f rel (\<lambda>g. notifyChange tagCollaborators g ident k)"
    by (simp add: leavesEdgeAlone_def tagCollaborators_def tagBaseCollaborators_def
                  baseCollaborators_def)
qed

text \<open>
  Claim C3, as amended. Whatever \<open>isRemote\<close> is, \<open>removeRelatedRecord\<close> takes the value
  out of the local membership set and the local ordered sequence of the edge and writes
  neither the remote membership set nor the remote ordered sequence; \<open>isRemote\<close> is only
  handed on to \<open>removeFromInverse\<close>. For a \<open>removeFromInverse\<close> that writes at most the
  edge stored for the identifier and the key it is given, as the mirrored change onto an
  implicit, a collection or a resource inverse does, and a \<open>notifyChange\<close> that leaves
  the edge alone, \<open>removeFromRelatedRecords\<close> leaves the edge without the listed values
  on its local side and with its remote side as it was, provided the edge is not itself
  the inverse edge of a listed value.
\<close>

theorem removeFromRelatedRecords_local_side:
  "(edgeAt g rel = Some (Collection c) \<longrightarrow>
      removeRelatedRecord env g rel owner (Some v) isRemote
        = (if v \<notin> localMembers c then Inr g
           else if v \<notin> set (localState c) then Inl AssertionError
           else removeFromInverse env (setEdge g rel (Collection (removeLocal v c)))
                  v (inverseKey (edgeDefinition c)) owner isRemote)
      \<and> localMembers (removeLocal v c) = localMembers c - {v}
      \<and> remoteMembers (removeLocal v c) = remoteMembers c
      \<and> remoteState (removeLocal v c) = remoteState c)
   \<and> (identifiersAllocated g
        \<and> (\<forall>ident k v. writesOnlyStoredEdge ident k
                     (\<lambda>g. removeFromInverse env g ident k v isRemote))
        \<and> (\<forall>ident k. leavesEdgeAlone (opRecord operation) (field operation) rel
                     (\<lambda>g. notifyChange env g ident k))
        \<and> get env g (opRecord operation) (field operation) = Inr (g1, rel)
        \<and> edgeAt g1 rel = Some (Collection c)
        \<and> (\<forall>x \<in> set (operationValues (opValue operation)).
               entryOf g1 x (inverseKey (edgeDefinition c)) \<noteq> Some rel)
        \<and> removeFromRelatedRecords env g operation isRemote = Inr g' \<longrightarrow>
        (\<exists>c'. edgeAt g' rel = Some (Collection c')
            \<and> c' = fold removeLocal (operationValues (opValue operation)) c
            \<and> localMembers c' = localMembers c - set (operationValues (opValue operation))
            \<and> remoteMembers c' = remoteMembers c
            \<and> remoteState c' = remoteState c
            \<and> (collectionAgrees c \<longrightarrow>
                 collectionAgrees c'
                 \<and> localState c' = filter (\<lambda>x. x \<notin> set (operationValues (opValue operation)))
                                     (localState c))))"
proof (intro conjI impI)
  assume c: "edgeAt g rel = Some (Collection c)"
  then show "removeRelatedRecord env g rel owner (Some v) isRemote
        = (if v \<notin> localMembers c then Inr g
           else if v \<notin> set (localState c) then Inl AssertionError
           else removeFromInverse env (setEdge g rel (Collection (removeLocal v c)))
                  v (inverseKey (edgeDefinition c)) owner isRemote)"
    by (simp add: removeRelatedRecord_def removeLocal_def)
  show "localMembers (removeLocal v c) = localMembers c - {v}"
       "remoteMembers (removeLocal v c) = remoteMembers c"
       "remoteState (removeLocal v c) = remoteState c"
    by (auto simp: removeLocal_def)
next
  assume h: "identifiersAllocated g
        \<and> (\<forall>ident k v. writesOnlyStoredEdge ident k
                     (\<lambda>g. removeFromInverse env g ident k v isRemote))
        \<and> (\<forall>ident k. leavesEdgeAlone (opRecord operation) (field operation) rel
                     (\<lambda>g. notifyChange env g ident k))
        \<and> get env g (opRecord operation) (field operation) = Inr (g1, rel)
        \<and> edgeAt g1 rel = Some (Collection c)
        \<and> (\<forall>x \<in> set (operationValues (opValue operation)).
               entryOf g1 x (inverseKey (edgeDefinition c)) \<noteq> Some rel)
        \<and> removeFromRelatedRecords env g operation isRemote = Inr g'"
  have "edgeAt g' rel = Some (Collection (fold removeLocal (operationValues (opValue operation)) c))"
  proof (rule removeFromRelatedRecords_apart [where g = g and ?g1.0 = g1])
    show "identifiersAllocated g" using h by blast
    show "writesOnlyStoredEdge ident k (\<lambda>g. removeFromInverse env g ident k v isRemote)" for ident k v
      using h by blast
    show "leavesEdgeAlone (opRecord operation) (field operation) rel (\<lambda>g. notifyChange env g ident k)"
      for ident k using h by blast
    show "get env g (opRecord operation) (field operation) = Inr (g1, rel)" using h by blast
    show "edgeAt g1 rel = Some (Collection c)" using h by blast
    show "\<forall>x \<in> set (operationValues (opValue operation)).
               entryOf g1 x (inverseKey (edgeDefinition c)) \<noteq> Some rel" using h by blast
    show "removeFromRelatedRecords env g operation isRemote = Inr g'" using h by blast
  qed
  then show "\<exists>c'. edgeAt g' rel = Some (Collection c')
            \<and> c' = fold removeLocal (operationValues (opValue operation)) c
            \<and> localMembers c' = localMembers c - set (operationValues (opValue operation))
            \<and> remoteMembers c' = remoteMembers c
            \<and> remoteState c' = remoteState c
            \<and> (collectionAgrees c \<longrightarrow>
                 collectionAgrees c'
                 \<and> localState c' = filter (\<lambda>x. x \<notin> set (operationValues (opValue operation)))
                                     (localState c))"
    by (simp add: fold_removeLocal_frame fold_removeLocal_agrees)
qed

lemma leavesEdgeAlone_neverAddsLocal:
  "leavesEdgeAlone ident f rel h \<Longrightarrow> neverAddsLocal ident f rel h"
  unfolding leavesEdgeAlone_def neverAddsLocal_def by blast

lemma removeRelatedRecord_shrinks:
  assumes frame: "\<And>ident k v. neverAddsLocal owner f rel
                     (\<lambda>g. removeFromInverse env g ident k v isRemote)"
      and entry: "entryOf g owner f = Some rel"
      and c: "edgeAt g rel = Some (Collection c)"
      and rm: "removeRelatedRecord env g rel owner (Some v) isRemote = Inr g'"
  shows "entryOf g' owner f = Some rel
       \<and> (\<exists>c'. edgeAt g' rel = Some (Collection c') \<and> localMembers c' \<subseteq> localMembers c - {v})"
proof (cases "v \<in> localMembers c")
  case False
  with rm c entry show ?thesis by (auto simp: removeRelatedRecord_def)
next
  case True
  let ?c = "c\<lparr> localMembers := localMembers c - {v}, localState := remove1 v (localState c) \<rparr>"
  let ?g = "setEdge g rel (Collection ?c)"
  from rm c True have r: "removeFromInverse env ?g v (inverseKey (edgeDefinition c)) owner isRemote = Inr g'"
    by (auto simp: removeRelatedRecord_def split: if_splits)
  have lt: "rel < length (edges g)" using c by (simp add: edgeAt_def split: if_splits)
  have e: "edgeAt ?g rel = Some (Collection ?c)" using lt by (simp add: edgeAt_setEdge)
  have n: "entryOf ?g owner f = Some rel" using entry by simp
  from frame [unfolded neverAddsLocal_def] r n e
  have "entryOf g' owner f = Some rel
      \<and> (\<exists>c'. edgeAt g' rel = Some (Collection c') \<and> localMembers c' \<subseteq> localMembers ?c)"
    by blast
  then show ?thesis by auto
qed

lemma removeRelatedRecordsLoop_shrinks:
  assumes frame: "\<And>ident k v. neverAddsLocal owner f rel
                     (\<lambda>g. removeFromInverse env g ident k v isRemote)"
  shows "entryOf g owner f = Some rel \<Longrightarrow> edgeAt g rel = Some (Collection c) \<Longrightarrow>
         removeRelatedRecordsLoop env rel owner isRemote vs g = Inr g' \<Longrightarrow>
         entryOf g' owner f = Some rel
         \<and> (\<exists>c'. edgeAt g' rel = Some (Collection c') \<and> localMembers c' \<subseteq> localMembers c - set vs)"
proof (induction vs arbitrary: g c)
  case Nil
  then show ?case by auto
next
  case (Cons v vs)
  from Cons.prems(3) obtain g1 where
    a: "removeRelatedRecord env g rel owner (Some v) isRemote = Inr g1"
    and b: "removeRelatedRecordsLoop env rel owner isRemote vs g1 = Inr g'"
    by (auto simp: bindE_eq_Inr)
  from removeRelatedRecord_shrinks [OF frame Cons.prems(1,2) a]
  obtain c1 where e1: "entryOf g1 owner f = Some rel"
    and c1: "edgeAt g1 rel = Some (Collection c1)"
    and s1: "localMembers c1 \<subseteq> localMembers c - {v}" by blast
  from Cons.IH [OF e1 c1 b] s1 show ?case by auto
qed

lemma removeValues_shrinks:
  assumes frame: "\<And>ident k v. neverAddsLocal owner f rel
                     (\<lambda>g. removeFromInverse env g ident k v isRemote)"
      and entry: "entryOf g owner f = Some rel"
      and c: "edgeAt g rel = Some (Collection c)"
      and rm: "(case val of
                Many vs \<Rightarrow> removeRelatedRecordsLoop env rel owner isRemote vs g
              | One v \<Rightarrow> removeRelatedRecord env g rel owner (Some v) isRemote
              | Null \<Rightarrow> removeRelatedRecord env g rel owner None isRemote) = Inr g'"
  shows "val \<noteq> Null \<and> entryOf g' owner f = Some rel
       \<and> (\<exists>c'. edgeAt g' rel = Some (Collection c')
              \<and> localMembers c' \<subseteq> localMembers c - set (operationValues val))"
proof (cases val)
  case Null
  with rm show ?thesis by (simp add: removeRelatedRecord_def)
next
  case (One v)
  with rm have "removeRelatedRecord env g rel owner (Some v) isRemote = Inr g'" by simp
  from removeRelatedRecord_shrinks [OF frame entry c this] One show ?thesis by simp
next
  case (Many vs)
  with rm have "removeRelatedRecordsLoop env rel owner isRemote vs g = Inr g'" by simp
  from removeRelatedRecordsLoop_shrinks [OF frame entry c this] Many show ?thesis by simp
qed

text \<open>
  Claim C5. \<open>removeRelatedRecord\<close> returns the graph unchanged for a value that is not
  in the local membership set of the edge. After one \<open>removeFromRelatedRecords\<close>, none
  of the listed values is a local member of the edge, and the same operation applied
  again removes nothing: it only notifies, and the edge is the same afterwards. This is
  stated for a \<open>removeFromInverse\<close> that never adds a local member to the edge and a
  \<open>notifyChange\<close> that leaves the edge alone.
\<close>

theorem removeFromRelatedRecords_idempotent:
  "(edgeAt g rel = Some (Collection c) \<and> v \<notin> localMembers c \<longrightarrow>
      removeRelatedRecord env g rel owner (Some v) isRemote = Inr g)
   \<and> (identifiersAllocated g
        \<and> (\<forall>ident k v. neverAddsLocal (opRecord operation) (field operation) rel
                     (\<lambda>g. removeFromInverse env g ident k v isRemote))
        \<and> (\<forall>ident k. leavesEdgeAlone (opRecord operation) (field operation) rel
                     (\<lambda>g. notifyChange env g ident k))
        \<and> get env g (opRecord operation) (field operation) = Inr (g0, rel)
        \<and> edgeAt g0 rel = Some (Collection c)
        \<and> removeFromRelatedRecords env g operation isRemote = Inr g1 \<longrightarrow>
        (\<exists>c1. edgeAt g1 rel = Some (Collection c1)
            \<and> localMembers c1 \<inter> set (operationValues (opValue operation)) = {}
            \<and> removeFromRelatedRecords env g1 operation isRemote
                = notifyChange env g1 (edgeIdentifier c1) (key (edgeDefinition c1)))
        \<and> (\<forall>g2. removeFromRelatedRecords env g1 operation isRemote = Inr g2 \<longrightarrow>
                edgeAt g2 rel = edgeAt g1 rel))"
proof (intro conjI impI)
  assume "edgeAt g rel = Some (Collection c) \<and> v \<notin> localMembers c"
  then show "removeRelatedRecord env g rel owner (Some v) isRemote = Inr g"
    by (simp add: removeRelatedRecord_def)
next
  assume h: "identifiersAllocated g
        \<and> (\<forall>ident k v. neverAddsLocal (opRecord operation) (field operation) rel
                     (\<lambda>g. removeFromInverse env g ident k v isRemote))
        \<and> (\<forall>ident k. leavesEdgeAlone (opRecord operation) (field operation) rel
                     (\<lambda>g. notifyChange env g ident k))
        \<and> get env g (opRecord operation) (field operation) = Inr (g0, rel)
        \<and> edgeAt g0 rel = Some (Collection c)
        \<and> removeFromRelatedRecords env g operation isRemote = Inr g1"
  let ?vs = "operationValues (opValue operation)"
  have frame: "neverAddsLocal (opRecord operation) (field operation) rel
                     (\<lambda>g. removeFromInverse env g ident k v isRemote)" for ident k v
    using h by blast
  have nfy: "leavesEdgeAlone (opRecord operation) (field operation) rel
                     (\<lambda>g. notifyChange env g ident k)" for ident k
    using h by blast
  have alloc: "identifiersAllocated g" and get: "get env g (opRecord operation) (field operation) = Inr (g0, rel)"
    and c: "edgeAt g0 rel = Some (Collection c)"
    and rm: "removeFromRelatedRecords env g operation isRemote = Inr g1"
    using h by blast+
  have entry: "entryOf g0 (opRecord operation) (field operation) = Some rel"
    using alloc get by (rule get_entry)
  from rm [unfolded removeFromRelatedRecords_unfold [OF get c] bindE_eq_Inr]
  obtain gm where
    vals0: "(case opValue operation of
                Many vs \<Rightarrow> removeRelatedRecordsLoop env rel (opRecord operation) isRemote vs g0
              | One v \<Rightarrow> removeRelatedRecord env g0 rel (opRecord operation) (Some v) isRemote
              | Null \<Rightarrow> removeRelatedRecord env g0 rel (opRecord operation) None isRemote) = Inr gm"
    and n0: "(case edgeAt gm rel of
                  Some (Collection c2) \<Rightarrow>
                    notifyChange env gm (edgeIdentifier c2) (key (edgeDefinition c2))
                | _ \<Rightarrow> Inl TypeError) = Inr g1"
    by blast
  from removeValues_shrinks [OF frame entry c vals0]
  obtain cm where notNull: "opValue operation \<noteq> Null"
    and em: "entryOf gm (opRecord operation) (field operation) = Some rel"
    and cm: "edgeAt gm rel = Some (Collection cm)"
    and sm: "localMembers cm \<subseteq> localMembers c - set ?vs" by blast
  from n0 cm have "notifyChange env gm (edgeIdentifier cm) (key (edgeDefinition cm)) = Inr g1"
    by simp
  with nfy [unfolded leavesEdgeAlone_def] em cm
  have e1: "entryOf g1 (opRecord operation) (field operation) = Some rel"
    and c1: "edgeAt g1 rel = Some (Collection cm)" by blast+
  have name: "field operation \<noteq> []" using get by (rule get_propertyName)
  have get1: "get env g1 (opRecord operation) (field operation) = Inr (g1, rel)"
    using e1 name by (rule entry_get)
  have absent: "v \<notin> localMembers cm" if "v \<in> set ?vs" for v
    using that sm by auto
  have one: "removeRelatedRecord env g1 rel (opRecord operation) (Some v) isRemote = Inr g1"
    if "v \<in> set ?vs" for v
    using c1 absent [OF that] by (simp add: removeRelatedRecord_def)
  have loop: "removeRelatedRecordsLoop env rel (opRecord operation) isRemote vs g1 = Inr g1"
    if "set vs \<subseteq> set ?vs" for vs
    using that by (induction vs) (simp_all add: one)
  have vals: "(case opValue operation of
                Many vs \<Rightarrow> removeRelatedRecordsLoop env rel (opRecord operation) isRemote vs g1
              | One v \<Rightarrow> removeRelatedRecord env g1 rel (opRecord operation) (Some v) isRemote
              | Null \<Rightarrow> removeRelatedRecord env g1 rel (opRecord operation) None isRemote) = Inr g1"
    using notNull by (cases "opValue operation") (simp_all add: one loop)
  have again: "removeFromRelatedRecords env g1 operation isRemote
                = notifyChange env g1 (edgeIdentifier cm) (key (edgeDefinition cm))"
    by (simp add: removeFromRelatedRecords_unfold [OF get1 c1] vals c1)
  have disj: "localMembers cm \<inter> set ?vs = {}" using sm by auto
  show "\<exists>c1. edgeAt g1 rel = Some (Collection c1)
            \<and> localMembers c1 \<inter> set ?vs = {}
            \<and> removeFromRelatedRecords env g1 operation isRemote
                = notifyChange env g1 (edgeIdentifier c1) (key (edgeDefinition c1))"
    using c1 again disj by blast
  show "\<forall>g2. removeFromRelatedRecords env g1 operation isRemote = Inr g2 \<longrightarrow>
                edgeAt g2 rel = edgeAt g1 rel"
  proof (intro allI impI)
    fix g2 assume "removeFromRelatedRecords env g1 operation isRemote = Inr g2"
    with again have "notifyChange env g1 (edgeIdentifier cm) (key (edgeDefinition cm)) = Inr g2"
      by simp
    with nfy [unfolded leavesEdgeAlone_def] e1 c1 show "edgeAt g2 rel = edgeAt g1 rel"
      by (metis (no_types, lifting))
  qed
qed

lemma example_preserves_graphAgrees:
  "preserves graphAgrees (\<lambda>g. removeFromInverse exampleCollaborators g ident k v isRemote)"
  "preserves graphAgrees (\<lambda>g. notifyChange exampleCollaborators g ident k)"
proof -
  have imp: "graphAgrees (setEdge g rel (Implicit i'))"
    if "graphAgrees g" "edgeAt g rel = Some (Implicit i)" for g rel i i'
  proof -
    have "case (edges g)[rel := Implicit i'] ! n of
               Collection x \<Rightarrow> collectionAgrees x | _ \<Rightarrow> True"
      if "n < length (edges g)" for n
      using \<open>graphAgrees g\<close> that by (cases "n = rel") (simp_all add: graphAgrees_def list_all_length)
    then show ?thesis by (simp add: graphAgrees_def setEdge_def list_all_length)
  qed
  have "removeFromInverse exampleCollaborators = exampleRemoveFromInverse"
    by (simp add: exampleCollaborators_def)
  then show "preserves graphAgrees (\<lambda>g. removeFromInverse exampleCollaborators g ident k v isRemote)"
    using exampleRemoveFromInverse_preserves [OF graphAgrees_own imp] by simp
  show "preserves graphAgrees (\<lambda>g. notifyChange exampleCollaborators g ident k)"
    by (simp add: preserves_def exampleCollaborators_def baseCollaborators_def)
qed

theorem membership_and_order_agree_witness:
  "edgeAt exampleGraph 0 = Some (Collection exampleComments)
   \<and> collectionAgrees exampleComments
   \<and> comment1 \<in> localMembers exampleComments
   \<and> collectionAgrees (exampleComments\<lparr> localMembers := {comment2}, localState := [comment2] \<rparr>)
   \<and> graphAgrees exampleGraph
   \<and> removeFromRelatedRecords exampleCollaborators exampleGraph removeComment1 False
       = Inr (exampleGraph
                \<lparr> edges := [Collection (exampleComments\<lparr> localMembers := {comment2},
                                                          localState := [comment2] \<rparr>),
                            Implicit (inverseOfComment1\<lparr> localMembers := {} \<rparr>),
                            Implicit inverseOfComment2] \<rparr>)
   \<and> graphAgrees (exampleGraph
                \<lparr> edges := [Collection (exampleComments\<lparr> localMembers := {comment2},
                                                          localState := [comment2] \<rparr>),
                            Implicit (inverseOfComment1\<lparr> localMembers := {} \<rparr>),
                            Implicit inverseOfComment2] \<rparr>)"
proof -
  let ?after = "exampleGraph
                \<lparr> edges := [Collection (exampleComments\<lparr> localMembers := {comment2},
                                                          localState := [comment2] \<rparr>),
                            Implicit (inverseOfComment1\<lparr> localMembers := {} \<rparr>),
                            Implicit inverseOfComment2] \<rparr>"
  have a: "edgeAt exampleGraph 0 = Some (Collection exampleComments)" by code_simp
  have b: "collectionAgrees exampleComments" by code_simp
  have c: "comment1 \<in> localMembers exampleComments" by code_simp
  have d: "graphAgrees exampleGraph" by code_simp
  have e: "removeFromRelatedRecords exampleCollaborators exampleGraph removeComment1 False = Inr ?after"
    by code_simp
  have f: "exampleComments\<lparr> localMembers := localMembers exampleComments - {comment1},
                             localState := remove1 comment1 (localState exampleComments) \<rparr>
            = exampleComments\<lparr> localMembers := {comment2}, localState := [comment2] \<rparr>"
    by code_simp
  note T = membership_and_order_agree
             [where c = exampleComments and g = exampleGraph and rel = 0 and v = comment1
                and env = exampleCollaborators and isRemote = False
                and operation = removeComment1 and g' = ?after]
  have 1: "collectionAgrees (exampleComments\<lparr> localMembers := localMembers exampleComments - {comment1},
                             localState := remove1 comment1 (localState exampleComments) \<rparr>)"
    using T a b c by blast
  have 2: "graphAgrees ?after"
    using T d e example_preserves_graphAgrees by blast
  from 1 have 3: "collectionAgrees (exampleComments\<lparr> localMembers := {comment2}, localState := [comment2] \<rparr>)"
    by (simp only: f)
  show ?thesis using a b c d e 2 3 by simp
qed

text \<open>
  Claim C3 as stated fails for \<open>isRemote = True\<close>: removing comment 1 from the comments
  of post 1 as a remote change takes it out of the local side of the edge and leaves it
  in the remote membership set and the remote ordered sequence.
\<close>

theorem removeFromRelatedRecords_remote_counterexample:
  "removeFromRelatedRecords exampleCollaborators exampleGraph removeComment1 True
     = Inr (exampleGraph
              \<lparr> edges := [Collection (exampleComments\<lparr> localMembers := {comment2},
                                                        localState := [comment2] \<rparr>),
                          Implicit (inverseOfComment1\<lparr> localMembers := {}, remoteMembers := {} \<rparr>),
                          Implicit inverseOfComment2] \<rparr>)
   \<and> comment1 \<in> remoteMembers exampleComments
   \<and> comment1 \<in> remoteMembers (exampleComments\<lparr> localMembers := {comment2}, localState := [comment2] \<rparr>)
   \<and> remoteState (exampleComments\<lparr> localMembers := {comment2}, localState := [comment2] \<rparr>) = [comment1]
   \<and> comment1 \<in> localMembers exampleComments
   \<and> comment1 \<notin> localMembers (exampleComments\<lparr> localMembers := {comment2}, localState := [comment2] \<rparr>)"
  by code_simp

theorem removeFromRelatedRecords_local_side_witness:
  "identifiersAllocated taggedGraph
   \<and> get tagCollaborators taggedGraph post1 ''tags'' = Inr (taggedGraph, 0)
   \<and> edgeAt taggedGraph 0 = Some (Collection postTags)
   \<and> entryOf taggedGraph tag1 ''posts'' = Some 1
   \<and> tag1 \<in> localMembers postTags \<and> tag1 \<in> set (localState postTags)
   \<and> removeRelatedRecord tagCollaborators taggedGraph 0 post1 (Some tag1) True
       = removeFromInverse tagCollaborators
           (setEdge taggedGraph 0 (Collection (postTags\<lparr> localMembers := {}, localState := [] \<rparr>)))
           tag1 ''posts'' post1 True
   \<and> removeFromRelatedRecords tagCollaborators taggedGraph removeTag1 True
       = Inr (taggedGraph
                \<lparr> edges := [Collection (postTags\<lparr> localMembers := {}, localState := [] \<rparr>),
                            Collection (tagPosts\<lparr> localMembers := {}, remoteMembers := {},
                                                   localState := [], remoteState := [] \<rparr>)] \<rparr>)
   \<and> fold removeLocal [tag1] postTags = postTags\<lparr> localMembers := {}, localState := [] \<rparr>
   \<and> remoteMembers (fold removeLocal [tag1] postTags) = {tag1}
   \<and> remoteState (fold removeLocal [tag1] postTags) = [tag1]"
proof -
  let ?after = "taggedGraph
                \<lparr> edges := [Collection (postTags\<lparr> localMembers := {}, localState := [] \<rparr>),
                            Collection (tagPosts\<lparr> localMembers := {}, remoteMembers := {},
                                                   localState := [], remoteState := [] \<rparr>)] \<rparr>"
  have a: "identifiersAllocated taggedGraph" by code_simp
  have b: "get tagCollaborators taggedGraph (opRecord removeTag1) (field removeTag1)
             = Inr (taggedGraph, 0)" by code_simp
  have b': "get tagCollaborators taggedGraph post1 ''tags'' = Inr (taggedGraph, 0)" by code_simp
  have c: "edgeAt taggedGraph 0 = Some (Collection postTags)" by code_simp
  have d: "removeFromRelatedRecords tagCollaborators taggedGraph removeTag1 True = Inr ?after"
    by code_simp
  have e: "fold removeLocal [tag1] postTags = postTags\<lparr> localMembers := {}, localState := [] \<rparr>"
    by code_simp
  have e': "removeLocal tag1 postTags = postTags\<lparr> localMembers := {}, localState := [] \<rparr>"
    by code_simp
  have v: "operationValues (opValue removeTag1) = [tag1]" by code_simp
  have k: "inverseKey (edgeDefinition postTags) = ''posts''" by code_simp
  have i: "entryOf taggedGraph tag1 ''posts'' = Some 1" by code_simp
  have m: "tag1 \<in> localMembers postTags" "tag1 \<in> set (localState postTags)" by code_simp+
  have rs: "remoteMembers postTags = {tag1}" "remoteState postTags = [tag1]" by code_simp+
  have l1: "\<forall>ident k v. writesOnlyStoredEdge ident k
                     (\<lambda>g. removeFromInverse tagCollaborators g ident k v True)"
    by (simp add: tag_frames)
  have l2: "\<forall>ident k. leavesEdgeAlone (opRecord removeTag1) (field removeTag1) 0
                     (\<lambda>g. notifyChange tagCollaborators g ident k)"
    by (simp add: tag_frames)
  have ap: "\<forall>x \<in> set (operationValues (opValue removeTag1)).
               entryOf taggedGraph x (inverseKey (edgeDefinition postTags)) \<noteq> Some 0"
    by (simp add: v k i)
  note T = removeFromRelatedRecords_local_side
             [where g = taggedGraph and rel = 0 and c = postTags and env = tagCollaborators
                and owner = post1 and v = tag1 and isRemote = True and operation = removeTag1
                and ?g1.0 = taggedGraph and g' = ?after]
  have 1: "removeRelatedRecord tagCollaborators taggedGraph 0 post1 (Some tag1) True
       = removeFromInverse tagCollaborators
           (setEdge taggedGraph 0 (Collection (postTags\<lparr> localMembers := {}, localState := [] \<rparr>)))
           tag1 ''posts'' post1 True"
    using T c m by (simp add: e' k)
  have 2: "remoteMembers (fold removeLocal (operationValues (opValue removeTag1)) postTags)
             = remoteMembers postTags
         \<and> remoteState (fold removeLocal (operationValues (opValue removeTag1)) postTags)
             = remoteState postTags"
    using T a l1 l2 b c ap d by blast
  then have 3: "remoteMembers (fold removeLocal [tag1] postTags) = {tag1}
              \<and> remoteState (fold removeLocal [tag1] postTags) = [tag1]"
    by (simp only: v rs)
  show ?thesis using a b' c i m 1 d e 3 by simp
qed

theorem removeFromRelatedRecords_idempotent_witness:
  "edgeAt exampleGraph 0 = Some (Collection exampleComments)
   \<and> post1 \<notin> localMembers exampleComments
   \<and> removeRelatedRecord exampleCollaborators exampleGraph 0 post1 (Some post1) False = Inr exampleGraph
   \<and> identifiersAllocated exampleGraph
   \<and> get exampleCollaborators exampleGraph post1 ''comments'' = Inr (exampleGraph, 0)
   \<and> removeFromRelatedRecords exampleCollaborators exampleGraph removeComment1 False
       = Inr (exampleGraph
                \<lparr> edges := [Collection (exampleComments\<lparr> localMembers := {comment2},
                                                          localState := [comment2] \<rparr>),
                            Implicit (inverseOfComment1\<lparr> localMembers := {} \<rparr>),
                            Implicit inverseOfComment2] \<rparr>)
   \<and> removeFromRelatedRecords exampleCollaborators
         (exampleGraph
                \<lparr> edges := [Collection (exampleComments\<lparr> localMembers := {comment2},
                                                          localState := [comment2] \<rparr>),
                            Implicit (inverseOfComment1\<lparr> localMembers := {} \<rparr>),
                            Implicit inverseOfComment2] \<rparr>) removeComment1 False
       = Inr (exampleGraph
                \<lparr> edges := [Collection (exampleComments\<lparr> localMembers := {comment2},
                                                          localState := [comment2] \<rparr>),
                            Implicit (inverseOfComment1\<lparr> localMembers := {} \<rparr>),
                            Implicit inverseOfComment2] \<rparr>)"
proof -
  let ?after = "exampleGraph
                \<lparr> edges := [Collection (exampleComments\<lparr> localMembers := {comment2},
                                                          localState := [comment2] \<rparr>),
                            Implicit (inverseOfComment1\<lparr> localMembers := {} \<rparr>),
                            Implicit inverseOfComment2] \<rparr>"
  have a: "identifiersAllocated exampleGraph" by code_simp
  have b: "get exampleCollaborators exampleGraph (opRecord removeComment1) (field removeComment1)
             = Inr (exampleGraph, 0)" by code_simp
  have b': "get exampleCollaborators exampleGraph post1 ''comments'' = Inr (exampleGraph, 0)"
    by code_simp
  have c: "edgeAt exampleGraph 0 = Some (Collection exampleComments)" by code_simp
  have d: "removeFromRelatedRecords exampleCollaborators exampleGraph removeComment1 False = Inr ?after"
    by code_simp
  have n: "post1 \<notin> localMembers exampleComments" by code_simp
  have l1: "\<forall>ident k v. neverAddsLocal (opRecord removeComment1) (field removeComment1) 0
                     (\<lambda>g. removeFromInverse exampleCollaborators g ident k v False)"
    by (simp add: example_leaves leavesEdgeAlone_neverAddsLocal)
  have l2: "\<forall>ident k. leavesEdgeAlone (opRecord removeComment1) (field removeComment1) 0
                     (\<lambda>g. notifyChange exampleCollaborators g ident k)"
    by (simp add: example_leaves)
  have nc: "notifyChange exampleCollaborators g ident k = Inr g" for g ident k
    by (simp add: exampleCollaborators_def baseCollaborators_def)
  note T1 = removeFromRelatedRecords_idempotent
              [where g = exampleGraph and rel = 0 and c = exampleComments and v = post1
                 and env = exampleCollaborators and owner = post1 and isRemote = False]
  note T2 = removeFromRelatedRecords_idempotent
              [where g = exampleGraph and rel = 0 and c = exampleComments
                 and env = exampleCollaborators and isRemote = False
                 and operation = removeComment1 and ?g0.0 = exampleGraph and ?g1.0 = ?after]
  have 1: "removeRelatedRecord exampleCollaborators exampleGraph 0 post1 (Some post1) False
             = Inr exampleGraph"
    using T1 c n by blast
  have "\<exists>c1. edgeAt ?after 0 = Some (Collection c1)
            \<and> removeFromRelatedRecords exampleCollaborators ?after removeComment1 False
                = notifyChange exampleCollaborators ?after (edgeIdentifier c1) (key (edgeDefinition c1))"
    using T2 a l1 l2 b c d by blast
  then have 2: "removeFromRelatedRecords exampleCollaborators ?after removeComment1 False = Inr ?after"
    by (auto simp: nc)
  show ?thesis using a b' c d n 1 2 by simp
qed

end
